theory Spec2Isabelle
  imports Main
begin

section \<open>JavaScript values and strings\<close>

text \<open>
  The retrieval pipeline of \<^verbatim>\<open>src/confluence.ts\<close> works on values of type \<^verbatim>\<open>any\<close>:
  whatever \<^verbatim>\<open>response.json()\<close> returned. They are modelled by the datatype below.
  A parsed JSON document never contains \<open>JUndefined\<close>; it is the value of a read of a
  missing property. Numbers are the integral ones (no claim depends on a fraction), an
  object is the list of its own properties, the first entry for a key being the one a
  read sees.

  A string is the list of the bytes of its UTF-8 encoding (a string with a lone surrogate
  has none and is outside the model). ASCII text is its own encoding, so the string
  literals below are those of the source, and a search for an ASCII pattern in the bytes
  finds what it finds in the string.
\<close>

datatype jsval =
    JUndefined
  | JNull
  | JBool bool
  | JNum int
  | JStr string
  | JArr "jsval list"
  | JObj "(string \<times> jsval) list"

text \<open>
  Every \<^verbatim>\<open>throw new Error(...)\<close> of the source carries its message; the constructor
  says which of the spec's error kinds it is. \<open>TypeError\<close> is the engine's own error (a
  property read on \<^verbatim>\<open>null\<close> or \<^verbatim>\<open>undefined\<close>, a call of something that is not a
  function), \<open>FetchFailed\<close> a rejected \<^verbatim>\<open>fetch\<close> and \<open>SyntaxError\<close> a response body
  that is not JSON.
\<close>

datatype error =
    InvalidInput string
  | HostMismatch string
  | TransportError string
  | TypeError
  | FetchFailed
  | SyntaxError

definition bindE :: "error + 'a \<Rightarrow> ('a \<Rightarrow> error + 'b) \<Rightarrow> error + 'b" where
  "bindE m f = (case m of Inl e \<Rightarrow> Inl e | Inr x \<Rightarrow> f x)"

definition nullish :: "jsval \<Rightarrow> bool" where
  "nullish v = (v = JUndefined \<or> v = JNull)"

fun truthy :: "jsval \<Rightarrow> bool" where
  "truthy JUndefined = False"
| "truthy JNull = False"
| "truthy (JBool b) = b"
| "truthy (JNum n) = (n \<noteq> 0)"
| "truthy (JStr s) = (s \<noteq> [])"
| "truthy (JArr xs) = True"
| "truthy (JObj kvs) = True"

text \<open>
  \<open>read_prop v k\<close> is the read \<^verbatim>\<open>v.k\<close> on a value that is neither \<^verbatim>\<open>null\<close> nor
  \<^verbatim>\<open>undefined\<close>, for the property names this program reads (none of them is a property
  of a string, number, boolean or array, or of \<^verbatim>\<open>Object.prototype\<close>).
\<close>

fun read_prop :: "jsval \<Rightarrow> string \<Rightarrow> jsval" where
  "read_prop (JObj kvs) k = (case map_of kvs k of None \<Rightarrow> JUndefined | Some v \<Rightarrow> v)"
| "read_prop v k = JUndefined"

text \<open>\<^verbatim>\<open>v.k\<close>, \<^verbatim>\<open>v?.k\<close> and \<^verbatim>\<open>a ?? b\<close>.\<close>

definition get :: "jsval \<Rightarrow> string \<Rightarrow> error + jsval" where
  "get v k = (if nullish v then Inl TypeError else Inr (read_prop v k))"

definition opt_get :: "jsval \<Rightarrow> string \<Rightarrow> jsval" where
  "opt_get v k = (if nullish v then JUndefined else read_prop v k)"

definition coalesce :: "jsval \<Rightarrow> jsval \<Rightarrow> jsval" where
  "coalesce a b = (if nullish a then b else a)"

definition startsWith :: "string \<Rightarrow> string \<Rightarrow> bool" where
  "startsWith s p = (take (length p) s = p)"

text \<open>
  \<^verbatim>\<open>String.prototype.trim\<close> removes the white space and line terminators of ECMAScript
  from both ends: TAB, LF, VT, FF, CR, SP, U+00A0, U+1680, U+2000 to U+200A, U+2028,
  U+2029, U+202F, U+205F, U+3000 and U+FEFF, here in UTF-8. \<open>blank_len ws s\<close> is the
  length of the member of \<open>ws\<close> that \<open>s\<close> starts with (0 when there is none), and
  \<open>strip_start ws s\<close> removes such members from the start of \<open>s\<close> until none is left.
\<close>

definition js_whitespace :: "string list" where
  "js_whitespace =
     [[CHR 0x09], [CHR 0x0A], [CHR 0x0B], [CHR 0x0C], [CHR 0x0D], [CHR 0x20],
      [CHR 0xC2, CHR 0xA0],
      [CHR 0xE1, CHR 0x9A, CHR 0x80],
      [CHR 0xE2, CHR 0x80, CHR 0x80], [CHR 0xE2, CHR 0x80, CHR 0x81],
      [CHR 0xE2, CHR 0x80, CHR 0x82], [CHR 0xE2, CHR 0x80, CHR 0x83],
      [CHR 0xE2, CHR 0x80, CHR 0x84], [CHR 0xE2, CHR 0x80, CHR 0x85],
      [CHR 0xE2, CHR 0x80, CHR 0x86], [CHR 0xE2, CHR 0x80, CHR 0x87],
      [CHR 0xE2, CHR 0x80, CHR 0x88], [CHR 0xE2, CHR 0x80, CHR 0x89],
      [CHR 0xE2, CHR 0x80, CHR 0x8A],
      [CHR 0xE2, CHR 0x80, CHR 0xA8], [CHR 0xE2, CHR 0x80, CHR 0xA9],
      [CHR 0xE2, CHR 0x80, CHR 0xAF],
      [CHR 0xE2, CHR 0x81, CHR 0x9F],
      [CHR 0xE3, CHR 0x80, CHR 0x80],
      [CHR 0xEF, CHR 0xBB, CHR 0xBF]]"

definition blank_len :: "string list \<Rightarrow> string \<Rightarrow> nat" where
  "blank_len ws s = (case find (\<lambda>w. startsWith s w) ws of None \<Rightarrow> 0 | Some w \<Rightarrow> length w)"

function strip_start :: "string list \<Rightarrow> string \<Rightarrow> string" where
  "strip_start ws s =
     (if blank_len ws s = 0 then s else strip_start ws (drop (blank_len ws s) s))"
  by pat_completeness auto
termination
proof (relation "measure (\<lambda>(ws, s). length s)")
  show "wf (measure (\<lambda>(ws, s). length s))" by simp
next
  fix ws :: "string list" and s :: string
  assume a: "blank_len ws s \<noteq> 0"
  then obtain w where "find (\<lambda>w. startsWith s w) ws = Some w" "length w = blank_len ws s"
    by (auto simp: blank_len_def split: option.splits)
  then have "take (length w) s = w" by (auto simp: find_Some_iff startsWith_def)
  with a \<open>length w = blank_len ws s\<close> have "s \<noteq> []" by auto
  with a show "((ws, drop (blank_len ws s) s), (ws, s)) \<in> measure (\<lambda>(ws, s). length s)"
    by simp
qed

definition trim :: "string \<Rightarrow> string" where
  "trim s = rev (strip_start (map rev js_whitespace) (rev (strip_start js_whitespace s)))"

text \<open>
  \<^verbatim>\<open>String.prototype.toLowerCase\<close>. On ASCII text, which is what the host of a parsed URL
  is, it maps the capital letters to the small ones. Of the other code points only the
  Kelvin sign U+212A has a lower case made of ASCII letters; the others are left as they
  are, which does not change whether the result equals an ASCII string.
\<close>

definition lower_char :: "char \<Rightarrow> char" where
  "lower_char c =
     (case map_of (zip ''ABCDEFGHIJKLMNOPQRSTUVWXYZ'' ''abcdefghijklmnopqrstuvwxyz'') c of
        None \<Rightarrow> c | Some l \<Rightarrow> l)"

definition kelvin_sign :: string where
  "kelvin_sign = [CHR 0xE2, CHR 0x84, CHR 0xAA]"

fun toLowerCase :: "string \<Rightarrow> string" where
  "toLowerCase [] = []"
| "toLowerCase (c # s) =
     (if startsWith (c # s) kelvin_sign then CHR ''k'' # toLowerCase (drop 2 s)
      else lower_char c # toLowerCase s)"

definition is_digit :: "char \<Rightarrow> bool" where
  "is_digit c = (c \<in> set ''0123456789'')"

text \<open>The test \<^verbatim>\<open>/^\d+$/.test(s)\<close>.\<close>

definition all_digits :: "string \<Rightarrow> bool" where
  "all_digits s = (s \<noteq> [] \<and> list_all is_digit s)"

text \<open>Decimal numerals, for the numbers that a template literal prints.\<close>

definition digit_char :: "nat \<Rightarrow> char" where
  "digit_char d = ''0123456789'' ! d"

fun show_nat :: "nat \<Rightarrow> string" where
  "show_nat n = (if n < 10 then [digit_char n] else show_nat (n div 10) @ [digit_char (n mod 10)])"

definition show_int :: "int \<Rightarrow> string" where
  "show_int i = (if i < 0 then CHR ''-'' # show_nat (nat (- i)) else show_nat (nat i))"

text \<open>
  \<open>to_string v\<close> is the conversion a template literal \<^verbatim>\<open>`${v}`\<close> applies. An array is
  joined with commas, \<^verbatim>\<open>null\<close> and \<^verbatim>\<open>undefined\<close> elements printing as nothing. An
  object prints as \<^verbatim>\<open>[object Object]\<close>, unless it has an own property \<^verbatim>\<open>toString\<close>:
  that one is not a function, and the conversion throws.
\<close>

fun to_string :: "jsval \<Rightarrow> error + string"
  and join_elems :: "jsval list \<Rightarrow> error + string" where
  "to_string JUndefined = Inr ''undefined''"
| "to_string JNull = Inr ''null''"
| "to_string (JBool b) = Inr (if b then ''true'' else ''false'')"
| "to_string (JNum n) = Inr (show_int n)"
| "to_string (JStr s) = Inr s"
| "to_string (JArr xs) = join_elems xs"
| "to_string (JObj kvs) =
     (if ''toString'' \<in> fst ` set kvs then Inl TypeError else Inr ''[object Object]'')"
| "join_elems [] = Inr []"
| "join_elems (x # xs) =
     bindE (if x = JUndefined \<or> x = JNull then Inr [] else to_string x) (\<lambda>a.
       if xs = [] then Inr a
       else bindE (join_elems xs) (\<lambda>b. Inr (a @ '','' @ b)))"

section \<open>Input resolver\<close>

text \<open>
  \<^verbatim>\<open>new URL(value)\<close> is the platform's parser, not code of this repository: the functions
  take it as the parameter \<open>URL\<close>, \<open>None\<close> being its exception. Of the parsed URL the
  program reads \<^verbatim>\<open>pathname\<close>, \<^verbatim>\<open>host\<close> and \<^verbatim>\<open>searchParams\<close>.
\<close>

record URL =
  pathname :: string
  host :: string
  searchParams :: "(string \<times> string) list"

type_synonym url_parser = "string \<Rightarrow> URL option"

record ParsedPageInput =
  pageId :: string
  hostFromUrl :: "string option"

text \<open>
  \<^verbatim>\<open>pathname.match(/\/pages\/(\d+)(?:\/|$)/)?.[1]\<close>. At one position the pattern matches
  when \<^verbatim>\<open>/pages/\<close> is followed by a non-empty run of digits and then by a slash or the
  end of the string: the greedy run is the longest one, and a shorter run is followed by
  a digit, so backtracking finds nothing more. The match is the leftmost one.
\<close>

definition match_pages_at :: "string \<Rightarrow> string option" where
  "match_pages_at s =
     (if startsWith s ''/pages/'' then
        (let rest = drop 7 s; ds = takeWhile is_digit rest; after = dropWhile is_digit rest
         in if ds \<noteq> [] \<and> (after = [] \<or> hd after = CHR ''/'') then Some ds else None)
      else None)"

fun match_pages :: "string \<Rightarrow> string option" where
  "match_pages [] = None"
| "match_pages (c # cs) =
     (case match_pages_at (c # cs) of Some ds \<Rightarrow> Some ds | None \<Rightarrow> match_pages cs)"

definition invalid_identifier_msg :: string where
  "invalid_identifier_msg =
     ''Invalid page identifier. Provide a numeric page ID or a full Confluence page URL.''"

definition no_page_id_msg :: string where
  "no_page_id_msg = ''Could not extract a numeric page ID from the provided URL.''"

definition parsePageInput :: "url_parser \<Rightarrow> string \<Rightarrow> error + ParsedPageInput" where
  "parsePageInput URL idOrUrl =
     (let v = trim idOrUrl in
      if all_digits v then Inr \<lparr>pageId = v, hostFromUrl = None\<rparr>
      else
        (case URL v of
           None \<Rightarrow> Inl (InvalidInput invalid_identifier_msg)
         | Some u \<Rightarrow>
             (let fromPath = match_pages (pathname u);
                  fromQuery = map_of (searchParams u) ''pageId'';
                  pid = (case fromPath of Some p \<Rightarrow> Some p | None \<Rightarrow> fromQuery)
              in case pid of
                   None \<Rightarrow> Inl (InvalidInput no_page_id_msg)
                 | Some p \<Rightarrow>
                     if p = [] \<or> \<not> all_digits p then Inl (InvalidInput no_page_id_msg)
                     else Inr \<lparr>pageId = p, hostFromUrl = Some (toLowerCase (host u))\<rparr>)))"

definition host_mismatch_msg :: "string \<Rightarrow> string \<Rightarrow> string" where
  "host_mismatch_msg h configuredSite =
     ''URL host mismatch: URL uses '' @ h @ '' but config site is '' @ configuredSite @ ''.''"

text \<open>
  The guard \<^verbatim>\<open>parsed.hostFromUrl && ...\<close> is false for an absent host and for the empty
  string.
\<close>

definition resolvePageIdForSite :: "url_parser \<Rightarrow> string \<Rightarrow> string \<Rightarrow> error + string" where
  "resolvePageIdForSite URL idOrUrl configuredSite =
     bindE (parsePageInput URL idOrUrl) (\<lambda>parsed.
       case hostFromUrl parsed of
         None \<Rightarrow> Inr (pageId parsed)
       | Some h \<Rightarrow>
           if h \<noteq> [] \<and> h \<noteq> toLowerCase configuredSite
           then Inl (HostMismatch (host_mismatch_msg h configuredSite))
           else Inr (pageId parsed))"

section \<open>Comments\<close>

record InlineContext =
  textSelection :: jsval
  markerRef :: jsval
  resolved :: bool

text \<open>
  The scalar fields of a \<^verbatim>\<open>Comment\<close> hold what the upstream record held (the source
  does not convert them), so they are \<open>jsval\<close>s. \<open>inlineContext = None\<close> is the
  property left \<^verbatim>\<open>undefined\<close>.
\<close>

datatype Comment =
  Comment (comment_id: jsval) (title: jsval) (author: jsval) (created: jsval) (updated: jsval)
    (bodyHtml: jsval) (inlineContext: "InlineContext option") (children: "Comment list")

function countComments :: "Comment list \<Rightarrow> nat" where
  "countComments comments =
     foldl (\<lambda>total comment. total + 1 + countComments (children comment)) 0 comments"
  by pat_completeness auto
termination
proof (relation "measure (size_list size)")
  show "wf (measure (size_list size))" by simp
next
  fix comments :: "Comment list" and total :: nat and comment :: Comment
  assume "comment \<in> set comments"
  then have "size comment \<le> size_list size comments"
    by (induction comments) auto
  moreover have "size_list size (children comment) < size comment"
    by (cases comment) simp
  ultimately show "(children comment, comments) \<in> measure (size_list size)"
    by simp
qed

definition parseComment :: "jsval \<Rightarrow> error + Comment" where
  "parseComment raw =
     bindE (get raw ''extensions'') (\<lambda>x.
       let ext = coalesce x (JObj []) in
       bindE (get ext ''inlineProperties'') (\<lambda>ip.
       bindE (if truthy ip then
                bindE (get ip ''originalSelection'') (\<lambda>sel.
                bindE (get ip ''markerRef'') (\<lambda>mref.
                bindE (get ext ''resolution'') (\<lambda>res.
                  Inr (Some \<lparr>textSelection = coalesce sel (JStr ''''),
                             markerRef = coalesce mref (JStr ''''),
                             resolved = (opt_get res ''status'' = JStr ''resolved'')\<rparr>))))
              else Inr None) (\<lambda>ictx.
       bindE (get raw ''id'') (\<lambda>rid.
       bindE (get raw ''title'') (\<lambda>rtitle.
       bindE (get raw ''version'') (\<lambda>ver.
       bindE (get raw ''history'') (\<lambda>hist.
       bindE (get raw ''body'') (\<lambda>body.
         Inr (Comment rid
                (coalesce rtitle (JStr ''''))
                (coalesce (opt_get (opt_get ver ''by'') ''displayName'')
                   (coalesce (opt_get (opt_get hist ''createdBy'') ''displayName'')
                      (JStr ''unknown'')))
                (coalesce (opt_get ver ''when'')
                   (coalesce (opt_get hist ''createdDate'') (JStr '''')))
                (coalesce (opt_get ver ''when'') (JStr ''''))
                (coalesce (opt_get (opt_get body ''storage'') ''value'')
                   (coalesce (opt_get (opt_get body ''view'') ''value'') (JStr '''')))
                ictx
                [])))))))))"


definition with_children :: "Comment \<Rightarrow> Comment list \<Rightarrow> Comment" where
  "with_children c ch =
     Comment (comment_id c) (title c) (author c) (created c) (updated c) (bodyHtml c)
       (inlineContext c) ch"

section \<open>Paginated fetcher\<close>

text \<open>
  \<^verbatim>\<open>fetch\<close> is the platform's HTTP client. Within one export the upstream service is a
  function from the requested URL to what \<^verbatim>\<open>fetch\<close> gives back (the headers are the
  same for every request of a client): \<open>None\<close> when the promise is rejected, otherwise a
  response with its status line and its body, \<open>json = None\<close> being a body that
  \<^verbatim>\<open>response.json()\<close> cannot parse. Every function that talks to the network takes the
  list of the URLs requested so far and returns it extended, in request order.
\<close>

record response =
  status :: nat
  statusText :: string
  json :: "jsval option"

type_synonym server = "string \<Rightarrow> response option"

definition ok :: "response \<Rightarrow> bool" where
  "ok r = (200 \<le> status r \<and> status r \<le> 299)"

definition transport_msg :: "response \<Rightarrow> string \<Rightarrow> string" where
  "transport_msg r u =
     ''Confluence API error '' @ show_nat (status r) @ '' '' @ statusText r @ '': GET '' @ u"

definition normalizePaginationLink :: "string \<Rightarrow> string" where
  "normalizePaginationLink next =
     (if startsWith next ''http://'' \<or> startsWith next ''https://'' then next
      else if startsWith next ''/wiki/'' then drop (length ''/wiki'') next
      else next)"

definition request_url :: "string \<Rightarrow> string \<Rightarrow> string" where
  "request_url baseUrl pathOrUrl =
     (if startsWith pathOrUrl ''http://'' \<or> startsWith pathOrUrl ''https://'' then pathOrUrl
      else baseUrl @ (if startsWith pathOrUrl ''/'' then pathOrUrl else ''/'' @ pathOrUrl))"

definition apiGet ::
  "server \<Rightarrow> string \<Rightarrow> string \<Rightarrow> string list \<Rightarrow> (error + jsval) \<times> string list" where
  "apiGet srv baseUrl pathOrUrl reqs =
     (let u = request_url baseUrl pathOrUrl; reqs' = reqs @ [u] in
      case srv u of
        None \<Rightarrow> (Inl FetchFailed, reqs')
      | Some r \<Rightarrow>
          if \<not> ok r then (Inl (TransportError (transport_msg r u)), reqs')
          else (case json r of
                  None \<Rightarrow> (Inl SyntaxError, reqs')
                | Some v \<Rightarrow> (Inr v, reqs')))"

text \<open>
  What one iteration of the loop of \<^verbatim>\<open>fetchAllPages\<close> does with the page it fetched:
  the new \<^verbatim>\<open>results\<close> and the new \<^verbatim>\<open>next\<close> (\<open>None\<close> is \<^verbatim>\<open>null\<close>). A truthy link
  that is not a string has no \<^verbatim>\<open>startsWith\<close> method, and the call throws.
\<close>

definition page_step :: "jsval list \<Rightarrow> jsval \<Rightarrow> error + (jsval list \<times> string option)" where
  "page_step results pg =
     bindE (get pg ''results'') (\<lambda>rs.
       let results' = (case rs of JArr items \<Rightarrow> results @ items | _ \<Rightarrow> results) in
       bindE (get pg ''_links'') (\<lambda>links.
         let nxt = opt_get links ''next'' in
         if truthy nxt then
           (case nxt of
              JStr s \<Rightarrow> Inr (results', Some (normalizePaginationLink s))
            | _ \<Rightarrow> Inl TypeError)
         else Inr (results', None)))"

text \<open>
  The loop \<^verbatim>\<open>while (next) { ... }\<close>; a \<^verbatim>\<open>next\<close> that is \<^verbatim>\<open>null\<close> or the empty
  string ends it. The loop runs for ever on a service whose links never end: then the
  value is \<open>None\<close>.
\<close>

partial_function (option) fetchAllPages_loop ::
  "server \<Rightarrow> string \<Rightarrow> jsval list \<Rightarrow> string option \<Rightarrow> string list \<Rightarrow>
     ((error + jsval list) \<times> string list) option" where
  "fetchAllPages_loop srv baseUrl results next reqs =
     (case next of
        None \<Rightarrow> Some (Inr results, reqs)
      | Some p \<Rightarrow>
          if p = [] then Some (Inr results, reqs)
          else
            (case apiGet srv baseUrl p reqs of
               (Inl e, reqs') \<Rightarrow> Some (Inl e, reqs')
             | (Inr pg, reqs') \<Rightarrow>
                 (case page_step results pg of
                    Inl e \<Rightarrow> Some (Inl e, reqs')
                  | Inr (results', next') \<Rightarrow>
                      fetchAllPages_loop srv baseUrl results' next' reqs')))"

definition fetchAllPages ::
  "server \<Rightarrow> string \<Rightarrow> string \<Rightarrow> string list \<Rightarrow> ((error + jsval list) \<times> string list) option" where
  "fetchAllPages srv baseUrl path reqs = fetchAllPages_loop srv baseUrl [] (Some path) reqs"

section \<open>Comment tree builder\<close>

definition child_comments_path :: "string \<Rightarrow> string" where
  "child_comments_path cid =
     ''/rest/api/content/'' @ cid @
     ''/child/comment?expand=body.storage,version,extensions.inlineProperties,extensions.resolution&limit=100''"

text \<open>
  \<^verbatim>\<open>fetchReplies\<close> calls itself inside its \<^verbatim>\<open>for\<close> loop. Both are one recursive
  function on what is left to do: \<open>Replies commentId\<close> is the call
  \<^verbatim>\<open>fetchReplies(client, commentId)\<close>, and \<open>Rest raws replies\<close> is the loop with the
  records \<open>raws\<close> still to visit and \<open>replies\<close> pushed so far. The loop over the
  top-level comments in \<^verbatim>\<open>fetchConfluencePage\<close> has the same body. \<open>None\<close> is a
  traversal that does not return.
\<close>

datatype task = Replies jsval | Rest "jsval list" "Comment list"

partial_function (option) fetchTree ::
  "server \<Rightarrow> string \<Rightarrow> task \<Rightarrow> string list \<Rightarrow> ((error + Comment list) \<times> string list) option" where
  "fetchTree srv baseUrl t reqs =
     (case t of
        Replies commentId \<Rightarrow>
          (case to_string commentId of
             Inl e \<Rightarrow> Some (Inl e, reqs)
           | Inr cid \<Rightarrow>
               Option.bind (fetchAllPages srv baseUrl (child_comments_path cid) reqs) (\<lambda>r.
                 case r of
                   (Inl e, reqs') \<Rightarrow> Some (Inl e, reqs')
                 | (Inr rawReplies, reqs') \<Rightarrow> fetchTree srv baseUrl (Rest rawReplies []) reqs'))
      | Rest [] replies \<Rightarrow> Some (Inr replies, reqs)
      | Rest (raw # raws) replies \<Rightarrow>
          (case parseComment raw of
             Inl e \<Rightarrow> Some (Inl e, reqs)
           | Inr reply \<Rightarrow>
               (case get raw ''id'' of
                  Inl e \<Rightarrow> Some (Inl e, reqs)
                | Inr rid \<Rightarrow>
                    Option.bind (fetchTree srv baseUrl (Replies rid) reqs) (\<lambda>r.
                      case r of
                        (Inl e, reqs') \<Rightarrow> Some (Inl e, reqs')
                      | (Inr ch, reqs') \<Rightarrow>
                          fetchTree srv baseUrl
                            (Rest raws (replies @ [with_children reply ch])) reqs'))))"

definition fetchReplies ::
  "server \<Rightarrow> string \<Rightarrow> jsval \<Rightarrow> string list \<Rightarrow> ((error + Comment list) \<times> string list) option" where
  "fetchReplies srv baseUrl commentId reqs = fetchTree srv baseUrl (Replies commentId) reqs"

section \<open>Page export assembler\<close>

record RequiredConfig =
  site :: string
  email :: string
  apikey :: string

record Page =
  page_id :: jsval
  page_title :: jsval
  space :: jsval
  page_url :: string
  page_author :: jsval
  page_created :: jsval
  lastUpdated :: jsval
  version :: jsval
  labels :: "jsval list"
  page_bodyHtml :: jsval

record Meta =
  fetchedAt :: string
  totalComments :: nat

record PageExport =
  page :: Page
  comments :: "Comment list"
  meta :: Meta

definition page_path :: "string \<Rightarrow> string" where
  "page_path pid =
     ''/rest/api/content/'' @ pid @ ''?expand=body.storage,version,history,space,metadata.labels''"

text \<open>\<^verbatim>\<open>xs.map((label) => label.name)\<close>.\<close>

fun label_names :: "jsval list \<Rightarrow> error + jsval list" where
  "label_names [] = Inr []"
| "label_names (l # ls) =
     bindE (get l ''name'') (\<lambda>n. bindE (label_names ls) (\<lambda>ns. Inr (n # ns)))"

text \<open>
  The object literal that \<^verbatim>\<open>fetchConfluencePage\<close> returns; \<open>now\<close> is
  \<^verbatim>\<open>new Date().toISOString()\<close>. A label list that is not an array has no \<^verbatim>\<open>map\<close>
  method.
\<close>

definition build_export :: "string \<Rightarrow> string \<Rightarrow> jsval \<Rightarrow> Comment list \<Rightarrow> error + PageExport" where
  "build_export baseUrl now pg cs =
     bindE (get pg ''id'') (\<lambda>pid.
     bindE (get pg ''title'') (\<lambda>ptitle.
     bindE (get pg ''space'') (\<lambda>sp.
     bindE (get pg ''_links'') (\<lambda>links.
     bindE (to_string (coalesce (opt_get links ''webui'') (JStr ''''))) (\<lambda>webui.
     bindE (get pg ''version'') (\<lambda>ver.
     bindE (get pg ''history'') (\<lambda>hist.
     bindE (get pg ''metadata'') (\<lambda>md.
     bindE (case coalesce (opt_get (opt_get md ''labels'') ''results'') (JArr []) of
              JArr ls \<Rightarrow> label_names ls
            | _ \<Rightarrow> Inl TypeError) (\<lambda>lbls.
     bindE (get pg ''body'') (\<lambda>body.
       Inr \<lparr>page =
              \<lparr>page_id = pid,
               page_title = ptitle,
               space = coalesce (opt_get sp ''key'') (JStr ''''),
               page_url = baseUrl @ webui,
               page_author = coalesce (opt_get (opt_get ver ''by'') ''displayName'') (JStr ''unknown''),
               page_created =
                 coalesce (opt_get hist ''createdDate'') (coalesce (opt_get ver ''when'') (JStr '''')),
               lastUpdated = coalesce (opt_get ver ''when'') (JStr ''''),
               version = coalesce (opt_get ver ''number'') (JNum 1),
               labels = lbls,
               page_bodyHtml = coalesce (opt_get (opt_get body ''storage'') ''value'') (JStr '''')\<rparr>,
            comments = cs,
            meta = \<lparr>fetchedAt = now, totalComments = countComments cs\<rparr>\<rparr>))))))))))"

definition createClient_baseUrl :: "RequiredConfig \<Rightarrow> string" where
  "createClient_baseUrl config = ''https://'' @ site config @ ''/wiki''"

definition fetchConfluencePage ::
  "url_parser \<Rightarrow> server \<Rightarrow> string \<Rightarrow> RequiredConfig \<Rightarrow> string \<Rightarrow>
     ((error + PageExport) \<times> string list) option" where
  "fetchConfluencePage URL srv now config idOrUrl =
     (case resolvePageIdForSite URL idOrUrl (site config) of
        Inl e \<Rightarrow> Some (Inl e, [])
      | Inr pid \<Rightarrow>
          (let baseUrl = createClient_baseUrl config in
           case apiGet srv baseUrl (page_path pid) [] of
             (Inl e, reqs) \<Rightarrow> Some (Inl e, reqs)
           | (Inr pg, reqs) \<Rightarrow>
               Option.bind (fetchAllPages srv baseUrl (child_comments_path pid) reqs) (\<lambda>r.
                 case r of
                   (Inl e, reqs') \<Rightarrow> Some (Inl e, reqs')
                 | (Inr rawComments, reqs') \<Rightarrow>
                     Option.bind (fetchTree srv baseUrl (Rest rawComments []) reqs') (\<lambda>r'.
                       case r' of
                         (Inl e, reqs'') \<Rightarrow> Some (Inl e, reqs'')
                       | (Inr cs, reqs'') \<Rightarrow> Some (build_export baseUrl now pg cs, reqs'')))))"

section \<open>Notions used in the statements\<close>

text \<open>
  \<open>field_at v path\<close> is the value found in \<open>v\<close> by following the property names of
  \<open>path\<close> through nested objects: \<open>None\<close> when a step is missing, leads through
  something that is not an object, or the value found is \<^verbatim>\<open>null\<close>. \<open>or_else\<close> is the
  fallback to a default.
\<close>

definition present :: "jsval \<Rightarrow> jsval option" where
  "present v = (if nullish v then None else Some v)"

fun field_at :: "jsval \<Rightarrow> string list \<Rightarrow> jsval option" where
  "field_at v [] = present v"
| "field_at (JObj kvs) (k # ks) = (case map_of kvs k of None \<Rightarrow> None | Some w \<Rightarrow> field_at w ks)"
| "field_at v (k # ks) = None"

definition or_else :: "jsval option \<Rightarrow> jsval \<Rightarrow> jsval" where
  "or_else a d = (case a of Some v \<Rightarrow> v | None \<Rightarrow> d)"

text \<open>The inline context that \<^verbatim>\<open>parseComment\<close> builds for a record.\<close>

definition inline_of :: "jsval \<Rightarrow> InlineContext option" where
  "inline_of raw =
     (let ext = coalesce (read_prop raw ''extensions'') (JObj []);
          ip = read_prop ext ''inlineProperties''
      in if truthy ip then
           Some \<lparr>textSelection = coalesce (read_prop ip ''originalSelection'') (JStr ''''),
                 markerRef = coalesce (read_prop ip ''markerRef'') (JStr ''''),
                 resolved = (opt_get (read_prop ext ''resolution'') ''status'' = JStr ''resolved'')\<rparr>
         else None)"

text \<open>
  The numeric page ID of a parsed URL: the first match of the path pattern, otherwise the
  \<^verbatim>\<open>pageId\<close> query parameter when it is all digits.
\<close>

definition numeric_id :: "URL \<Rightarrow> string option" where
  "numeric_id u =
     (case match_pages (pathname u) of
        Some p \<Rightarrow> Some p
      | None \<Rightarrow>
          (case map_of (searchParams u) ''pageId'' of
             Some q \<Rightarrow> if all_digits q then Some q else None
           | None \<Rightarrow> None))"

text \<open>
  The nodes of a comment tree, the node count of one tree, and the full forest of a given
  depth and fan-out.
\<close>

fun nodes :: "Comment \<Rightarrow> Comment list" where
  "nodes (Comment i t a cr u b ic ch) = Comment i t a cr u b ic ch # concat (map nodes ch)"

fun subtree_count :: "Comment \<Rightarrow> nat" where
  "subtree_count (Comment i t a cr u b ic ch) = 1 + sum_list (map subtree_count ch)"

fun full_forest :: "nat \<Rightarrow> nat \<Rightarrow> Comment list" where
  "full_forest 0 k = []"
| "full_forest (Suc d) k =
     replicate k (Comment JNull JNull JNull JNull JNull JNull None (full_forest d k))"

subsection \<open>Sample data\<close>

text \<open>
  What the platform's URL parser returns on the inputs of the test suite and of the spec's
  scenarios, on a \<^verbatim>\<open>file:\<close> URL (whose host is empty), and on strings that are no URL.
\<close>

definition URL_examples :: url_parser where
  "URL_examples s =
     (if s = ''https://example.atlassian.net/wiki/spaces/ENG/pages/22982787097/My+Page'' then
        Some \<lparr>pathname = ''/wiki/spaces/ENG/pages/22982787097/My+Page'',
              host = ''example.atlassian.net'', searchParams = []\<rparr>
      else if s = ''https://example.atlassian.net/wiki/pages/viewpage.action?pageId=22982787097'' then
        Some \<lparr>pathname = ''/wiki/pages/viewpage.action'',
              host = ''example.atlassian.net'', searchParams = [(''pageId'', ''22982787097'')]\<rparr>
      else if s = ''https://other.atlassian.net/wiki/pages/viewpage.action?pageId=55'' then
        Some \<lparr>pathname = ''/wiki/pages/viewpage.action'',
              host = ''other.atlassian.net'', searchParams = [(''pageId'', ''55'')]\<rparr>
      else if s = ''https://other.atlassian.net/wiki/spaces/ENG/overview'' then
        Some \<lparr>pathname = ''/wiki/spaces/ENG/overview'',
              host = ''other.atlassian.net'', searchParams = []\<rparr>
      else if s = ''file:///pages/123'' then
        Some \<lparr>pathname = ''/pages/123'', host = [], searchParams = []\<rparr>
      else None)"

text \<open>
  Two comment records: a reply that has only its history and a rendered body, and an
  inline comment on a text selection, resolved, with no marker reference.
\<close>

definition raw_plain :: jsval where
  "raw_plain =
     JObj [(''id'', JStr ''201''),
           (''history'', JObj [(''createdBy'', JObj [(''displayName'', JStr ''Bob'')]),
                               (''createdDate'', JStr ''2024-01-02T10:00:00.000Z'')]),
           (''body'', JObj [(''view'', JObj [(''value'', JStr ''<p>ok</p>'')])])]"

definition raw_inline :: jsval where
  "raw_inline =
     JObj [(''id'', JStr ''101''),
           (''title'', JStr ''Re: Home''),
           (''version'', JObj [(''by'', JObj [(''displayName'', JStr ''Ada'')]),
                               (''when'', JStr ''2024-01-01T09:00:00.000Z'')]),
           (''body'', JObj [(''storage'', JObj [(''value'', JStr ''<p>typo</p>'')])]),
           (''extensions'',
              JObj [(''inlineProperties'', JObj [(''originalSelection'', JStr ''teh'')]),
                    (''resolution'', JObj [(''status'', JStr ''resolved'')])])]"

subsection \<open>Counting a full forest\<close>

text \<open>
  \<open>is_full d k cs\<close>: the forest \<open>cs\<close> has \<open>d\<close> levels and every node list in it has
  \<open>k\<close> members; \<open>full_count d k\<close> is \<open>k + k\<^sup>2 + \<dots> + k\<^sup>d\<close>.
\<close>

fun is_full :: "nat \<Rightarrow> nat \<Rightarrow> Comment list \<Rightarrow> bool" where
  "is_full 0 k cs = (cs = [])"
| "is_full (Suc d) k cs = (length cs = k \<and> (\<forall>c\<in>set cs. is_full d k (children c)))"

fun full_count :: "nat \<Rightarrow> nat \<Rightarrow> nat" where
  "full_count 0 k = 0"
| "full_count (Suc d) k = k * (1 + full_count d k)"

subsection \<open>The upstream service as the program sees it\<close>

text \<open>
  \<open>served srv u pg\<close>: the service answers the URL \<open>u\<close> with a 2xx response whose body
  is the JSON value \<open>pg\<close>. Of a response page, \<open>page_items\<close> are the members of its
  \<^verbatim>\<open>results\<close> array (none when the field is no array), \<open>next_link\<close> is its
  \<^verbatim>\<open>_links?.next\<close>, and \<open>next_path\<close> the path the loop requests after it. A page is
  \<open>well_linked\<close> when its link is a string or falsy.
\<close>

definition served :: "server \<Rightarrow> string \<Rightarrow> jsval \<Rightarrow> bool" where
  "served srv u pg = (case srv u of None \<Rightarrow> False | Some r \<Rightarrow> ok r \<and> json r = Some pg)"

definition page_items :: "jsval \<Rightarrow> jsval list" where
  "page_items pg = (case read_prop pg ''results'' of JArr items \<Rightarrow> items | _ \<Rightarrow> [])"

definition array_shaped :: "jsval \<Rightarrow> bool" where
  "array_shaped pg = (case read_prop pg ''results'' of JArr items \<Rightarrow> True | _ \<Rightarrow> False)"

definition next_link :: "jsval \<Rightarrow> jsval" where
  "next_link pg = opt_get (read_prop pg ''_links'') ''next''"

definition next_path :: "jsval \<Rightarrow> string" where
  "next_path pg = (case next_link pg of JStr s \<Rightarrow> normalizePaginationLink s | _ \<Rightarrow> [])"

definition well_linked :: "jsval \<Rightarrow> bool" where
  "well_linked pg = (case next_link pg of JStr s \<Rightarrow> True | v \<Rightarrow> \<not> truthy v)"

text \<open>
  \<open>page_chain srv baseUrl path pgs\<close>: \<open>pgs\<close> is the sequence of response pages of the
  listing that starts at \<open>path\<close>. The first page is what the service answers for
  \<open>path\<close>, every later page what it answers for the link of the page before it, and
  the sequence ends at the first page without a link. \<open>chain_urls\<close> are the URLs of
  these requests, in order.
\<close>

fun page_chain :: "server \<Rightarrow> string \<Rightarrow> string \<Rightarrow> jsval list \<Rightarrow> bool" where
  "page_chain srv baseUrl path [] = (path = [])"
| "page_chain srv baseUrl path (pg # pgs) =
     (path \<noteq> [] \<and> served srv (request_url baseUrl path) pg \<and> \<not> nullish pg \<and> well_linked pg
      \<and> page_chain srv baseUrl (next_path pg) pgs)"

fun chain_urls :: "string \<Rightarrow> string \<Rightarrow> jsval list \<Rightarrow> string list" where
  "chain_urls baseUrl path [] = []"
| "chain_urls baseUrl path (pg # pgs) =
     request_url baseUrl path # chain_urls baseUrl (next_path pg) pgs"

text \<open>
  The complete reply tree of the service. \<open>reply_forest srv baseUrl commentId cs\<close>: the
  child-comment listing of \<open>commentId\<close> is a finite chain of pages, and \<open>cs\<close> are its
  records, normalised, each with the complete reply forest of its own \<^verbatim>\<open>id\<close> as
  children, in listing order.
\<close>

inductive reply_forest :: "server \<Rightarrow> string \<Rightarrow> jsval \<Rightarrow> Comment list \<Rightarrow> bool"
  and comment_trees :: "server \<Rightarrow> string \<Rightarrow> jsval list \<Rightarrow> Comment list \<Rightarrow> bool"
  for srv :: server and baseUrl :: string where
  replies:
    "to_string commentId = Inr cid \<Longrightarrow>
     page_chain srv baseUrl (child_comments_path cid) pgs \<Longrightarrow>
     comment_trees srv baseUrl (concat (map page_items pgs)) cs \<Longrightarrow>
     reply_forest srv baseUrl commentId cs"
| no_comment: "comment_trees srv baseUrl [] []"
| comment:
    "parseComment raw = Inr c \<Longrightarrow>
     reply_forest srv baseUrl (read_prop raw ''id'') ch \<Longrightarrow>
     comment_trees srv baseUrl raws cs \<Longrightarrow>
     comment_trees srv baseUrl (raw # raws) (with_children c ch # cs)"

text \<open>
  \<open>finite_thread srv baseUrl commentId\<close>: below \<open>commentId\<close> every chain of replies
  ends. The listing of the comment is a finite chain of pages of records, and the same
  holds for every record listed; a comment without replies is the base case.
\<close>

inductive finite_thread :: "server \<Rightarrow> string \<Rightarrow> jsval \<Rightarrow> bool"
  for srv :: server and baseUrl :: string where
  thread:
    "to_string commentId = Inr cid \<Longrightarrow>
     page_chain srv baseUrl (child_comments_path cid) pgs \<Longrightarrow>
     (\<forall>raw \<in> set (concat (map page_items pgs)).
        \<not> nullish raw \<and> finite_thread srv baseUrl (read_prop raw ''id'')) \<Longrightarrow>
     finite_thread srv baseUrl commentId"




subsection \<open>A sample site\<close>

text \<open>
  The site \<^verbatim>\<open>example.atlassian.net\<close> with page 55. Its comment listing has two pages,
  the first linking to the second with a \<^verbatim>\<open>/wiki\<close> path: the inline comment 101 and
  the comment 102 (whose id is a number). Comment 101 has the replies 201 and 202,
  comment 102 the replies 203 and 204, and these have no replies.
\<close>

definition raw_short :: jsval where
  "raw_short = JObj [(''id'', JNum 102)]"

definition raw_id :: "string \<Rightarrow> jsval" where
  "raw_id s = JObj [(''id'', JStr s)]"

definition bare_comment :: "jsval \<Rightarrow> Comment list \<Rightarrow> Comment" where
  "bare_comment v ch = Comment v (JStr []) (JStr ''unknown'') (JStr []) (JStr []) (JStr []) None ch"

definition demo_config :: RequiredConfig where
  "demo_config = \<lparr>site = ''example.atlassian.net'', email = ''ada@example.com'', apikey = ''secret''\<rparr>"

definition demo_base :: string where
  "demo_base = ''https://example.atlassian.net/wiki''"

definition demo_now :: string where
  "demo_now = ''2024-02-01T00:00:00.000Z''"

definition ok_json :: "jsval \<Rightarrow> response" where
  "ok_json v = \<lparr>status = 200, statusText = ''OK'', json = Some v\<rparr>"

definition listing :: "jsval list \<Rightarrow> jsval" where
  "listing raws = JObj [(''results'', JArr raws), (''_links'', JObj [])]"

definition demo_page :: jsval where
  "demo_page =
     JObj [(''id'', JStr ''55''), (''title'', JStr ''Home''),
           (''space'', JObj [(''key'', JStr ''ENG'')]),
           (''version'', JObj [(''number'', JNum 3), (''when'', JStr ''2024-01-03T08:00:00.000Z''),
                               (''by'', JObj [(''displayName'', JStr ''Ada'')])]),
           (''metadata'', JObj [(''labels'', JObj [(''results'', JArr [JObj [(''name'', JStr ''howto'')]])])]),
           (''body'', JObj [(''storage'', JObj [(''value'', JStr ''<p>Welcome</p>'')])]),
           (''_links'', JObj [(''webui'', JStr ''/spaces/ENG/pages/55/Home'')])]"

definition demo_first_page :: jsval where
  "demo_first_page =
     JObj [(''results'', JArr [raw_inline]),
           (''_links'', JObj [(''next'', JStr ''/wiki/rest/api/content/55/child/comment?start=1'')])]"

definition demo_srv :: server where
  "demo_srv = map_of
     [(demo_base @ page_path ''55'', ok_json demo_page),
      (demo_base @ child_comments_path ''55'', ok_json demo_first_page),
      (demo_base @ ''/rest/api/content/55/child/comment?start=1'', ok_json (listing [raw_short])),
      (demo_base @ child_comments_path ''101'', ok_json (listing [raw_plain, raw_id ''202''])),
      (demo_base @ child_comments_path ''102'', ok_json (listing [raw_id ''203'', raw_id ''204''])),
      (demo_base @ child_comments_path ''201'', ok_json (listing [])),
      (demo_base @ child_comments_path ''202'', ok_json (listing [])),
      (demo_base @ child_comments_path ''203'', ok_json (listing [])),
      (demo_base @ child_comments_path ''204'', ok_json (listing []))]"

definition demo_replies :: "Comment list" where
  "demo_replies =
     [Comment (JStr ''201'') (JStr []) (JStr ''Bob'') (JStr ''2024-01-02T10:00:00.000Z'')
        (JStr []) (JStr ''<p>ok</p>'') None [],
      bare_comment (JStr ''202'') []]"

definition demo_comments :: "Comment list" where
  "demo_comments =
     [Comment (JStr ''101'') (JStr ''Re: Home'') (JStr ''Ada'') (JStr ''2024-01-01T09:00:00.000Z'')
        (JStr ''2024-01-01T09:00:00.000Z'') (JStr ''<p>typo</p>'')
        (Some \<lparr>textSelection = JStr ''teh'', markerRef = JStr [], resolved = True\<rparr>)
        demo_replies,
      bare_comment (JNum 102) [bare_comment (JStr ''203'') [], bare_comment (JStr ''204'') []]]"

text \<open>
  A listing whose four pages exercise the shapes the loop accepts: a link with the
  \<^verbatim>\<open>/wiki\<close> prefix, a page without \<^verbatim>\<open>results\<close> and with an absolute link, a page whose
  \<^verbatim>\<open>results\<close> is an object and whose link is a plain path, and a last page without links.
\<close>

definition odd_pages :: "jsval list" where
  "odd_pages =
     [JObj [(''results'', JArr [raw_id ''301'']),
            (''_links'', JObj [(''next'', JStr ''/wiki/rest/api/content/7/child/comment?start=1'')])],
      JObj [(''_links'',
             JObj [(''next'',
                    JStr ''https://example.atlassian.net/wiki/rest/api/content/7/child/comment?start=2'')])],
      JObj [(''results'', JObj [(''size'', JNum 0)]),
            (''_links'', JObj [(''next'', JStr ''/rest/api/content/7/child/comment?start=3'')])],
      JObj [(''results'', JArr [raw_id ''302''])]]"

definition odd_urls :: "string list" where
  "odd_urls =
     [demo_base @ child_comments_path ''7'',
      demo_base @ ''/rest/api/content/7/child/comment?start=1'',
      ''https://example.atlassian.net/wiki/rest/api/content/7/child/comment?start=2'',
      demo_base @ ''/rest/api/content/7/child/comment?start=3'']"

definition odd_srv :: server where
  "odd_srv = map_of (zip odd_urls (map ok_json odd_pages))"



definition page_only_srv :: "jsval \<Rightarrow> server" where
  "page_only_srv pg = map_of
     [(demo_base @ page_path ''55'', ok_json pg),
      (demo_base @ child_comments_path ''55'', ok_json (listing []))]"

definition page_v0 :: jsval where
  "page_v0 = JObj [(''id'', JStr ''55''), (''title'', JStr ''Draft''),
                   (''version'', JObj [(''number'', JNum 0)])]"

definition page_bare :: jsval where
  "page_bare = JObj [(''id'', JStr ''55''), (''title'', JStr ''Draft'')]"

definition export_of_bare :: "jsval \<Rightarrow> PageExport" where
  "export_of_bare v =
     \<lparr>page = \<lparr>page_id = JStr ''55'', page_title = JStr ''Draft'', space = JStr [],
              page_url = demo_base, page_author = JStr ''unknown'', page_created = JStr [],
              lastUpdated = JStr [], version = v, labels = [], page_bodyHtml = JStr []\<rparr>,
      comments = [],
      meta = \<lparr>fetchedAt = demo_now, totalComments = 0\<rparr>\<rparr>"

text \<open>A configuration whose site is written in capitals.\<close>

definition shouting_config :: RequiredConfig where
  "shouting_config = \<lparr>site = ''Example.Atlassian.NET'', email = ''ada@example.com'', apikey = ''secret''\<rparr>"

text \<open>
  A service with reply chains of every length: the comment \<open>reply_id k\<close> (the letter c
  followed by \<open>k\<close> letters x) has the single reply \<open>reply_id (k - 1)\<close>, and
  \<open>reply_id 0\<close> has none. \<open>chain_forest k\<close> is the reply forest below \<open>reply_id k\<close>:
  a chain of \<open>k\<close> nested replies.
\<close>

definition reply_id :: "nat \<Rightarrow> string" where
  "reply_id k = CHR ''c'' # replicate k CHR ''x''"

definition deep_srv :: server where
  "deep_srv u =
     (let k = length (takeWhile (\<lambda>c. c = CHR ''x'')
                (drop (length (demo_base @ ''/rest/api/content/c'')) u))
      in if u = demo_base @ child_comments_path (reply_id k)
         then Some (ok_json (listing (if k = 0 then [] else [raw_id (reply_id (k - 1))])))
         else None)"

fun chain_forest :: "nat \<Rightarrow> Comment list" where
  "chain_forest 0 = []"
| "chain_forest (Suc k) = [bare_comment (JStr (reply_id k)) (chain_forest k)]"

section \<open>Properties\<close>

declare countComments.simps [simp del]
declare strip_start.simps [simp del]
declare toLowerCase.simps [simp del]

subsection \<open>Reading JavaScript values\<close>

lemma bindE_Inr: "bindE (Inr x) f = f x"
  by (simp add: bindE_def)

lemma bindE_Inl: "bindE (Inl e) f = Inl e"
  by (simp add: bindE_def)

lemma opt_get_simps:
  "opt_get JUndefined k = JUndefined"
  "opt_get JNull k = JUndefined"
  "opt_get (JBool b) k = JUndefined"
  "opt_get (JNum n) k = JUndefined"
  "opt_get (JStr s) k = JUndefined"
  "opt_get (JArr xs) k = JUndefined"
  "opt_get (JObj kvs) k = (case map_of kvs k of None \<Rightarrow> JUndefined | Some v \<Rightarrow> v)"
  by (simp_all add: opt_get_def nullish_def)

lemma opt_get_read_prop: "\<not> nullish v \<Longrightarrow> read_prop v k = opt_get v k"
  by (simp add: opt_get_def)

lemma get_Inr: "\<not> nullish v \<Longrightarrow> get v k = Inr (read_prop v k)"
  by (simp add: get_def)

lemma truthy_not_nullish: "truthy v \<Longrightarrow> \<not> nullish v"
  by (cases v) (simp_all add: nullish_def)

lemma not_nullish_coalesce_obj: "\<not> nullish (coalesce x (JObj kvs))"
  by (simp add: coalesce_def nullish_def)

lemma coalesce_or_else: "coalesce a b = or_else (present a) b"
  by (simp add: coalesce_def or_else_def present_def)

lemma foldl_opt_get_undefined: "foldl opt_get JUndefined ks = JUndefined"
  by (induction ks) (simp_all add: opt_get_simps)

lemma field_at_foldl: "field_at v ks = present (foldl opt_get v ks)"
proof (induction v ks rule: field_at.induct)
  case (1 v)
  show ?case by simp
next
  case (2 kvs k ks)
  then show ?case
    by (cases "map_of kvs k")
       (simp_all add: opt_get_simps nullish_def foldl_opt_get_undefined present_def)
qed (simp_all add: opt_get_simps nullish_def foldl_opt_get_undefined present_def)

lemma field_at_nullish: "nullish v \<Longrightarrow> field_at v ks = None"
  by (cases ks) (auto simp: present_def nullish_def)

lemma path3:
  "\<not> nullish raw \<Longrightarrow> present (opt_get (opt_get (read_prop raw a) b) c) = field_at raw [a, b, c]"
  by (simp add: field_at_foldl opt_get_read_prop)

lemma path2: "\<not> nullish raw \<Longrightarrow> present (opt_get (read_prop raw a) b) = field_at raw [a, b]"
  by (simp add: field_at_foldl opt_get_read_prop)

lemma path1: "\<not> nullish raw \<Longrightarrow> present (read_prop raw a) = field_at raw [a]"
  by (simp add: field_at_foldl opt_get_read_prop)

subsection \<open>Normalising a comment record\<close>

lemma parseComment_null: "nullish raw \<Longrightarrow> parseComment raw = Inl TypeError"
  by (simp add: parseComment_def get_def bindE_Inl)

lemma parseComment_record:
  assumes "\<not> nullish raw"
  shows "parseComment raw =
     Inr (Comment (read_prop raw ''id'')
            (coalesce (read_prop raw ''title'') (JStr ''''))
            (coalesce (opt_get (opt_get (read_prop raw ''version'') ''by'') ''displayName'')
               (coalesce (opt_get (opt_get (read_prop raw ''history'') ''createdBy'') ''displayName'')
                  (JStr ''unknown'')))
            (coalesce (opt_get (read_prop raw ''version'') ''when'')
               (coalesce (opt_get (read_prop raw ''history'') ''createdDate'') (JStr '''')))
            (coalesce (opt_get (read_prop raw ''version'') ''when'') (JStr ''''))
            (coalesce (opt_get (opt_get (read_prop raw ''body'') ''storage'') ''value'')
               (coalesce (opt_get (opt_get (read_prop raw ''body'') ''view'') ''value'') (JStr '''')))
            (inline_of raw)
            [])"
  using assms
  by (simp add: parseComment_def inline_of_def Let_def get_Inr bindE_Inr
      not_nullish_coalesce_obj truthy_not_nullish)

lemma inline_of_cases:
  assumes "\<not> nullish raw"
  shows "inline_of raw =
    (case field_at raw [''extensions'', ''inlineProperties''] of
       None \<Rightarrow> None
     | Some ip \<Rightarrow>
         if truthy ip then
           Some \<lparr>textSelection =
                   or_else (field_at raw [''extensions'', ''inlineProperties'', ''originalSelection''])
                     (JStr ''''),
                 markerRef =
                   or_else (field_at raw [''extensions'', ''inlineProperties'', ''markerRef''])
                     (JStr ''''),
                 resolved =
                   (field_at raw [''extensions'', ''resolution'', ''status''] = Some (JStr ''resolved''))\<rparr>
         else None)"
proof -
  let ?x = "read_prop raw ''extensions''"
  have ext: "coalesce ?x (JObj []) = (if nullish ?x then JObj [] else ?x)"
    by (simp add: coalesce_def)
  have f1: "field_at raw (''extensions'' # ks) =
      (if ks = [] then present ?x else if nullish ?x then None else field_at ?x ks)" for ks
    using assms
    by (cases raw)
       (auto simp: nullish_def present_def field_at_nullish split: option.splits list.splits)
  show ?thesis
  proof (cases "nullish ?x")
    case True
    then show ?thesis
      by (simp add: inline_of_def ext Let_def present_def f1)
  next
    case False
    let ?ip = "read_prop ?x ''inlineProperties''"
    have ip: "field_at raw [''extensions'', ''inlineProperties''] = present ?ip"
      using False path2 [OF assms, of "''extensions''" "''inlineProperties''"]
      by (simp add: opt_get_read_prop)
    have sub: "field_at raw [''extensions'', ''inlineProperties'', k] = present (opt_get ?ip k)" for k
      using False path3 [OF assms, of "''extensions''" "''inlineProperties''" k]
      by (simp add: opt_get_read_prop)
    have res: "field_at raw [''extensions'', ''resolution'', ''status''] =
        present (opt_get (read_prop ?x ''resolution'') ''status'')"
      using False path3 [OF assms, of "''extensions''" "''resolution''" "''status''"]
      by (simp add: opt_get_read_prop)
    have eq: "present v = Some (JStr ''resolved'') \<longleftrightarrow> v = JStr ''resolved''" for v
      by (auto simp: present_def nullish_def)
    have lhs: "inline_of raw =
       (if truthy ?ip then
           Some \<lparr>textSelection = coalesce (read_prop ?ip ''originalSelection'') (JStr ''''),
                 markerRef = coalesce (read_prop ?ip ''markerRef'') (JStr ''''),
                 resolved = (opt_get (read_prop ?x ''resolution'') ''status'' = JStr ''resolved'')\<rparr>
         else None)"
      using False by (simp add: inline_of_def ext Let_def)
    show ?thesis
    proof (cases "truthy ?ip")
      case True
      then have nn: "\<not> nullish ?ip" by (rule truthy_not_nullish)
      then have p: "present ?ip = Some ?ip" by (simp add: present_def)
      show ?thesis
        unfolding lhs ip p sub res eq
        using True nn by (simp add: coalesce_or_else opt_get_read_prop)
    next
      case f: False
      show ?thesis
        unfolding lhs ip using f by (simp add: present_def)
    qed
  qed
qed

text \<open>
  C6: every comment record (a value that is not \<^verbatim>\<open>null\<close> or \<^verbatim>\<open>undefined\<close>) is
  normalised, and in the result the author is the display name of the version's author,
  else the display name of the history's creator, else the literal \<^verbatim>\<open>unknown\<close>; the
  creation time is the version's timestamp, else the history's creation date, else the
  empty string; the body is the storage-format body, else the view-format body, else the
  empty string. A field counts as missing when it is absent or \<^verbatim>\<open>null\<close>.
\<close>

theorem parseComment_fallbacks:
  assumes "\<not> nullish raw"
  shows "\<exists>c. parseComment raw = Inr c
     \<and> author c =
         or_else (field_at raw [''version'', ''by'', ''displayName''])
           (or_else (field_at raw [''history'', ''createdBy'', ''displayName'']) (JStr ''unknown''))
     \<and> created c =
         or_else (field_at raw [''version'', ''when''])
           (or_else (field_at raw [''history'', ''createdDate'']) (JStr ''''))
     \<and> bodyHtml c =
         or_else (field_at raw [''body'', ''storage'', ''value''])
           (or_else (field_at raw [''body'', ''view'', ''value'']) (JStr ''''))"
  using assms
  by (simp add: parseComment_record coalesce_or_else path3 path2)

theorem parseComment_fallbacks_witness:
  "\<not> nullish raw_plain
   \<and> (\<exists>c. parseComment raw_plain = Inr c
          \<and> author c = JStr ''Bob''
          \<and> created c = JStr ''2024-01-02T10:00:00.000Z''
          \<and> bodyHtml c = JStr ''<p>ok</p>'')
   \<and> (\<exists>c. parseComment (JObj []) = Inr c
          \<and> author c = JStr ''unknown'' \<and> created c = JStr '''' \<and> bodyHtml c = JStr '''')"
proof -
  have h1: "\<not> nullish raw_plain" and h2: "\<not> nullish (JObj [])"
    by (simp_all add: raw_plain_def nullish_def)
  show ?thesis
    using h1 parseComment_fallbacks [OF h1] parseComment_fallbacks [OF h2]
    by (simp add: raw_plain_def or_else_def present_def nullish_def)
qed

text \<open>
  C7: the normalised comment of a record has an inline context exactly when the record's
  \<^verbatim>\<open>extensions.inlineProperties\<close> holds data (a truthy value: any object counts, a
  missing or \<^verbatim>\<open>null\<close> field does not); without it the field is absent. In the inline
  context the text selection and the marker reference default to the empty string, and
  \<^verbatim>\<open>resolved\<close> holds exactly when \<^verbatim>\<open>extensions.resolution.status\<close> is the string
  \<^verbatim>\<open>resolved\<close>.
\<close>

theorem parseComment_inlineContext:
  assumes "\<not> nullish raw"
  shows "\<exists>c. parseComment raw = Inr c
     \<and> inlineContext c =
         (case field_at raw [''extensions'', ''inlineProperties''] of
            None \<Rightarrow> None
          | Some ip \<Rightarrow>
              if truthy ip then
                Some \<lparr>textSelection =
                        or_else (field_at raw [''extensions'', ''inlineProperties'', ''originalSelection''])
                          (JStr ''''),
                      markerRef =
                        or_else (field_at raw [''extensions'', ''inlineProperties'', ''markerRef''])
                          (JStr ''''),
                      resolved =
                        (field_at raw [''extensions'', ''resolution'', ''status'']
                           = Some (JStr ''resolved''))\<rparr>
              else None)
     \<and> (field_at raw [''extensions'', ''inlineProperties''] = None \<longrightarrow> inlineContext c = None)
     \<and> (\<forall>kvs. field_at raw [''extensions'', ''inlineProperties''] = Some (JObj kvs)
            \<longrightarrow> inlineContext c \<noteq> None)"
  using assms
  by (auto simp: parseComment_record inline_of_cases split: option.splits)

theorem parseComment_inlineContext_witness:
  "\<not> nullish raw_inline
   \<and> field_at raw_inline [''extensions'', ''inlineProperties'']
       = Some (JObj [(''originalSelection'', JStr ''teh'')])
   \<and> (\<exists>c. parseComment raw_inline = Inr c
          \<and> inlineContext c =
              Some \<lparr>textSelection = JStr ''teh'', markerRef = JStr '''', resolved = True\<rparr>)
   \<and> field_at raw_plain [''extensions'', ''inlineProperties''] = None
   \<and> (\<exists>c. parseComment raw_plain = Inr c \<and> inlineContext c = None)"
proof -
  have h1: "\<not> nullish raw_inline" and h2: "\<not> nullish raw_plain"
    by (simp_all add: raw_inline_def raw_plain_def nullish_def)
  show ?thesis
    using h1 parseComment_inlineContext [OF h1] parseComment_inlineContext [OF h2]
    by (auto simp: raw_inline_def raw_plain_def or_else_def present_def nullish_def)
qed

subsection \<open>Resolving the page identifier\<close>

lemma match_pages_at_sound:
  assumes "match_pages_at s = Some ds"
  shows "all_digits ds \<and> (\<exists>post. s = ''/pages/'' @ ds @ post \<and> (post = [] \<or> hd post = CHR ''/''))"
proof -
  from assms have sw: "startsWith s ''/pages/''"
    by (simp add: match_pages_at_def split: if_splits)
  then have "take 7 s = ''/pages/''"
    by (simp add: startsWith_def eval_nat_numeral)
  with append_take_drop_id [of 7 s] have s: "s = ''/pages/'' @ drop 7 s"
    by simp
  from assms sw have ds: "ds = takeWhile is_digit (drop 7 s)" "ds \<noteq> []"
    and post: "dropWhile is_digit (drop 7 s) = [] \<or> hd (dropWhile is_digit (drop 7 s)) = CHR ''/''"
    by (auto simp: match_pages_at_def Let_def split: if_splits)
  have "all_digits ds"
    unfolding all_digits_def ds(1) using ds
    by (simp add: list_all_iff) (meson set_takeWhileD)
  moreover have "s = ''/pages/'' @ ds @ dropWhile is_digit (drop 7 s)"
    using s takeWhile_dropWhile_id [of is_digit "drop 7 s"] unfolding ds(1) by simp
  ultimately show ?thesis using post by blast
qed

lemma match_pages_sound:
  "match_pages p = Some ds \<Longrightarrow>
     all_digits ds \<and> (\<exists>pre post. p = pre @ ''/pages/'' @ ds @ post \<and> (post = [] \<or> hd post = CHR ''/''))"
proof (induction p)
  case Nil
  then show ?case by simp
next
  case (Cons c cs)
  show ?case
  proof (cases "match_pages_at (c # cs)")
    case None
    with Cons obtain pre post where "all_digits ds" "cs = pre @ ''/pages/'' @ ds @ post"
      "post = [] \<or> hd post = CHR ''/''"
      by auto
    then have "c # cs = (c # pre) @ ''/pages/'' @ ds @ post" by simp
    then show ?thesis using \<open>all_digits ds\<close> \<open>post = [] \<or> hd post = CHR ''/''\<close> by blast
  next
    case (Some a)
    with Cons.prems have "match_pages_at (c # cs) = Some ds" by simp
    from match_pages_at_sound [OF this] show ?thesis
      by (metis append_Nil)
  qed
qed


lemma parsePageInput_cases:
  "parsePageInput URL s =
     (if all_digits (trim s) then Inr \<lparr>pageId = trim s, hostFromUrl = None\<rparr>
      else case URL (trim s) of
             None \<Rightarrow> Inl (InvalidInput invalid_identifier_msg)
           | Some u \<Rightarrow>
               (case numeric_id u of
                  None \<Rightarrow> Inl (InvalidInput no_page_id_msg)
                | Some p \<Rightarrow> Inr \<lparr>pageId = p, hostFromUrl = Some (toLowerCase (host u))\<rparr>))"
proof -
  have "all_digits p \<and> p \<noteq> []" if "match_pages q = Some p" for p q
    using match_pages_sound [OF that] by (auto simp: all_digits_def)
  then show ?thesis
    by (auto simp: parsePageInput_def numeric_id_def Let_def all_digits_def split: option.splits)
qed








subsection \<open>The pagination loop along a chain of pages\<close>

lemma normalizePaginationLink_nonempty: "s \<noteq> [] \<Longrightarrow> normalizePaginationLink s \<noteq> []"
proof -
  assume s: "s \<noteq> []"
  have "drop 5 s \<noteq> []" if "startsWith s ''/wiki/''"
  proof -
    from that have "take 6 s = ''/wiki/''" by (simp add: startsWith_def eval_nat_numeral)
    then have "length (take 6 s) = 6" by simp
    then show ?thesis by simp
  qed
  then show ?thesis using s by (auto simp: normalizePaginationLink_def)
qed

lemma apiGet_served:
  "served srv (request_url baseUrl p) pg \<Longrightarrow>
     apiGet srv baseUrl p reqs = (Inr pg, reqs @ [request_url baseUrl p])"
  by (auto simp: served_def apiGet_def Let_def split: option.splits)

lemma page_step_ok:
  assumes "\<not> nullish pg" "well_linked pg"
  shows "page_step acc pg =
     Inr (acc @ page_items pg, if truthy (next_link pg) then Some (next_path pg) else None)"
proof -
  have "page_step acc pg =
      (let nxt = next_link pg in
         if truthy nxt then
           (case nxt of
              JStr s \<Rightarrow> Inr (acc @ page_items pg, Some (normalizePaginationLink s))
            | _ \<Rightarrow> Inl TypeError)
         else Inr (acc @ page_items pg, None))"
    using assms(1)
    by (simp add: page_step_def get_Inr bindE_Inr Let_def page_items_def next_link_def
          split: jsval.splits)
  then show ?thesis
    using assms(2) by (auto simp: well_linked_def next_path_def Let_def split: jsval.splits)
qed

lemma loop_stop:
  "next = None \<or> next = Some [] \<Longrightarrow>
     fetchAllPages_loop srv baseUrl acc next reqs = Some (Inr acc, reqs)"
  by (subst fetchAllPages_loop.simps) auto

lemma next_path_falsy: "well_linked pg \<Longrightarrow> \<not> truthy (next_link pg) \<Longrightarrow> next_path pg = []"
  by (auto simp: well_linked_def next_path_def normalizePaginationLink_def startsWith_def
      split: jsval.splits)

lemma next_path_truthy: "well_linked pg \<Longrightarrow> truthy (next_link pg) \<Longrightarrow> next_path pg \<noteq> []"
  by (auto simp: well_linked_def next_path_def normalizePaginationLink_nonempty split: jsval.splits)

lemma loop_chain:
  "page_chain srv baseUrl path pgs \<Longrightarrow>
     fetchAllPages_loop srv baseUrl acc (Some path) reqs =
       Some (Inr (acc @ concat (map page_items pgs)), reqs @ chain_urls baseUrl path pgs)"
proof (induction pgs arbitrary: path acc reqs)
  case Nil
  then show ?case by (simp add: loop_stop)
next
  case (Cons pg pgs)
  from Cons.prems have p: "path \<noteq> []" and s: "served srv (request_url baseUrl path) pg"
    and nn: "\<not> nullish pg" and wl: "well_linked pg"
    and rest: "page_chain srv baseUrl (next_path pg) pgs"
    by simp_all
  let ?acc = "acc @ page_items pg" and ?reqs = "reqs @ [request_url baseUrl path]"
  have step: "fetchAllPages_loop srv baseUrl acc (Some path) reqs =
      fetchAllPages_loop srv baseUrl ?acc
        (if truthy (next_link pg) then Some (next_path pg) else None) ?reqs"
    by (subst fetchAllPages_loop.simps) (simp add: p apiGet_served [OF s] page_step_ok [OF nn wl])
  show ?case
  proof (cases "truthy (next_link pg)")
    case True
    then show ?thesis
      using step Cons.IH [OF rest, of ?acc ?reqs] by simp
  next
    case False
    then have "next_path pg = []" using wl by (rule next_path_falsy [rotated])
    with rest have "pgs = []" by (cases pgs) simp_all
    then show ?thesis
      using step False by (simp add: loop_stop)
  qed
qed

lemma chain_links:
  "page_chain srv baseUrl path pgs \<Longrightarrow> i < length pgs \<Longrightarrow>
     truthy (next_link (pgs ! i)) \<longleftrightarrow> Suc i < length pgs"
proof (induction pgs arbitrary: path i)
  case Nil
  then show ?case by simp
next
  case (Cons pg pgs)
  from Cons.prems have wl: "well_linked pg" and rest: "page_chain srv baseUrl (next_path pg) pgs"
    by simp_all
  show ?case
  proof (cases i)
    case 0
    have "truthy (next_link pg) \<longleftrightarrow> pgs \<noteq> []"
    proof
      assume "truthy (next_link pg)"
      then have "next_path pg \<noteq> []" using wl by (rule next_path_truthy [rotated])
      with rest show "pgs \<noteq> []" by auto
    next
      assume ne: "pgs \<noteq> []"
      show "truthy (next_link pg)"
      proof (rule ccontr)
        assume "\<not> truthy (next_link pg)"
        then have "next_path pg = []" using wl by (rule next_path_falsy [rotated])
        with rest ne show False by (cases pgs) simp_all
      qed
    qed
    with 0 show ?thesis by simp
  next
    case (Suc j)
    with Cons.prems Cons.IH [OF rest, of j] show ?thesis by simp
  qed
qed

lemma length_chain_urls: "length (chain_urls baseUrl path pgs) = length pgs"
  by (induction pgs arbitrary: path) simp_all

lemma fetchAllPages_chain:
  "page_chain srv baseUrl path pgs \<Longrightarrow>
     fetchAllPages srv baseUrl path reqs =
       Some (Inr (concat (map page_items pgs)), reqs @ chain_urls baseUrl path pgs)"
  using loop_chain [of srv baseUrl path pgs "[]" reqs] by (simp add: fetchAllPages_def)

subsection \<open>Rejected requests\<close>










lemma bindE_error:
  "bindE m f = Inl e \<Longrightarrow> (m = Inl e \<Longrightarrow> P) \<Longrightarrow> (\<And>x. m = Inr x \<Longrightarrow> f x = Inl e \<Longrightarrow> P) \<Longrightarrow> P"
  by (cases m) (simp_all add: bindE_def)





subsection \<open>The reply traversal\<close>

lemma fetchTree_Replies:
  assumes "to_string commentId = Inr cid"
    and "page_chain srv baseUrl (child_comments_path cid) pgs"
  shows "fetchTree srv baseUrl (Replies commentId) reqs =
     fetchTree srv baseUrl (Rest (concat (map page_items pgs)) [])
       (reqs @ chain_urls baseUrl (child_comments_path cid) pgs)"
  by (subst fetchTree.simps) (simp add: assms(1) fetchAllPages_chain [OF assms(2)])

lemma fetchTree_Rest_Nil: "fetchTree srv baseUrl (Rest [] acc) reqs = Some (Inr acc, reqs)"
  by (subst fetchTree.simps) simp

lemma fetchTree_Rest_Cons:
  assumes "parseComment raw = Inr c"
    and "fetchTree srv baseUrl (Replies (read_prop raw ''id'')) reqs = Some (Inr ch, reqs')"
  shows "fetchTree srv baseUrl (Rest (raw # raws) acc) reqs =
     fetchTree srv baseUrl (Rest raws (acc @ [with_children c ch])) reqs'"
proof -
  from assms(1) have "\<not> nullish raw"
    using parseComment_null [of raw] by auto
  then show ?thesis
    by (subst fetchTree.simps) (simp add: assms get_Inr)
qed

lemma fetchTree_forest:
  "reply_forest srv baseUrl commentId cs \<Longrightarrow>
     \<exists>new. \<forall>reqs. fetchTree srv baseUrl (Replies commentId) reqs = Some (Inr cs, reqs @ new)"
  and fetchTree_trees:
  "comment_trees srv baseUrl raws cs \<Longrightarrow>
     \<exists>new. \<forall>reqs acc. fetchTree srv baseUrl (Rest raws acc) reqs = Some (Inr (acc @ cs), reqs @ new)"
proof (induction rule: reply_forest_comment_trees.inducts)
  case (replies commentId cid pgs cs)
  then obtain new where
    "\<forall>reqs acc. fetchTree srv baseUrl (Rest (concat (map page_items pgs)) acc) reqs
        = Some (Inr (acc @ cs), reqs @ new)"
    by blast
  then have "\<forall>reqs. fetchTree srv baseUrl (Replies commentId) reqs =
      Some (Inr cs, reqs @ (chain_urls baseUrl (child_comments_path cid) pgs @ new))"
    by (simp add: fetchTree_Replies [OF replies(1,2)])
  then show ?case by blast
next
  case no_comment
  have "\<forall>reqs acc. fetchTree srv baseUrl (Rest [] acc) reqs = Some (Inr (acc @ []), reqs @ [])"
    by (simp add: fetchTree_Rest_Nil)
  then show ?case by blast
next
  case (comment raw c ch raws cs)
  from comment.IH obtain n1 n2 where
    n1: "\<forall>reqs. fetchTree srv baseUrl (Replies (read_prop raw ''id'')) reqs = Some (Inr ch, reqs @ n1)"
    and n2: "\<forall>reqs acc. fetchTree srv baseUrl (Rest raws acc) reqs = Some (Inr (acc @ cs), reqs @ n2)"
    by blast
  have "\<forall>reqs acc. fetchTree srv baseUrl (Rest (raw # raws) acc) reqs =
      Some (Inr (acc @ with_children c ch # cs), reqs @ (n1 @ n2))"
    using fetchTree_Rest_Cons [OF comment(1) n1 [rule_format]] n2 by simp
  then show ?case by blast
qed

lemma finite_thread_forest:
  "finite_thread srv baseUrl commentId \<Longrightarrow> \<exists>cs. reply_forest srv baseUrl commentId cs"
proof (induction rule: finite_thread.induct)
  case (thread commentId cid pgs)
  have "\<exists>cs. comment_trees srv baseUrl raws cs"
    if "\<forall>raw\<in>set raws. \<not> nullish raw \<and> (\<exists>ch. reply_forest srv baseUrl (read_prop raw ''id'') ch)"
    for raws
    using that
  proof (induction raws)
    case Nil
    show ?case by (blast intro: no_comment)
  next
    case (Cons raw raws)
    then obtain ch cs where "reply_forest srv baseUrl (read_prop raw ''id'') ch"
      "comment_trees srv baseUrl raws cs" and "\<not> nullish raw"
      by auto
    moreover from \<open>\<not> nullish raw\<close> obtain c where "parseComment raw = Inr c"
      by (simp add: parseComment_record)
    ultimately show ?case by (blast intro: comment)
  qed
  with thread show ?case by (blast intro: replies)
qed

subsection \<open>Counting comments\<close>

lemma foldl_add_sum:
  "foldl (\<lambda>total x. total + 1 + f x) (a::nat) xs = a + sum_list (map (\<lambda>x. 1 + f x) xs)"
  by (induction xs arbitrary: a) auto

lemma countComments_sum:
  "countComments cs = sum_list (map (\<lambda>c. 1 + countComments (children c)) cs)"
  by (subst countComments.simps) (simp only: foldl_add_sum add_0)

lemma countComments_subtree: "countComments cs = sum_list (map subtree_count cs)"
proof (induction cs rule: countComments.induct)
  case (1 comments)
  have "sum_list (map (\<lambda>c. 1 + countComments (children c)) comments) = sum_list (map subtree_count comments)"
  proof (rule arg_cong [where f = sum_list], rule map_cong [OF refl])
    fix c assume c: "c \<in> set comments"
    from 1 [OF c] show "1 + countComments (children c) = subtree_count c"
      by (cases c) simp
  qed
  then show ?case by (subst countComments_sum) simp
qed

lemma length_nodes: "length (nodes c) = subtree_count c"
proof (induction c rule: subtree_count.induct)
  case (1 i t a cr u b ic ch)
  have "sum_list (map (\<lambda>x. length (nodes x)) ch) = sum_list (map subtree_count ch)"
    by (rule arg_cong [where f = sum_list], rule map_cong [OF refl], rule 1)
  then show ?case by (simp add: length_concat comp_def)
qed

lemma countComments_nodes: "countComments cs = length (concat (map nodes cs))"
  by (simp add: countComments_subtree length_concat comp_def length_nodes)

lemma countComments_full: "is_full d k cs \<Longrightarrow> countComments cs = full_count d k"
proof (induction d arbitrary: cs)
  case 0
  then show ?case by (simp add: countComments_sum [of "[]"])
next
  case (Suc d)
  then have len: "length cs = k" and ch: "\<forall>c\<in>set cs. countComments (children c) = full_count d k"
    by auto
  have "sum_list (map (\<lambda>c. 1 + countComments (children c)) cs)
      = sum_list (map (\<lambda>c. 1 + full_count d k) cs)"
    by (rule arg_cong [where f = sum_list], rule map_cong [OF refl]) (simp add: ch)
  also have "\<dots> = k * (1 + full_count d k)"
    using len by (simp add: sum_list_triv)
  finally show ?case by (simp add: countComments_sum [of cs])
qed

lemma is_full_full_forest: "is_full d k (full_forest d k)"
  by (induction d) auto

subsection \<open>The export\<close>

lemma build_export_Inr:
  assumes "build_export baseUrl now pg cs = Inr ex"
  shows "\<not> nullish pg" "comments ex = cs" "totalComments (meta ex) = countComments cs"
    "fetchedAt (meta ex) = now"
    "version (page ex) = coalesce (opt_get (read_prop pg ''version'') ''number'') (JNum 1)"
proof -
  show nn: "\<not> nullish pg"
    using assms by (auto simp: build_export_def get_def bindE_Inl)
  from assms have "\<exists>p. ex = \<lparr>page = p, comments = cs,
       meta = \<lparr>fetchedAt = now, totalComments = countComments cs\<rparr>\<rparr>
     \<and> version p = coalesce (opt_get (read_prop pg ''version'') ''number'') (JNum 1)"
    unfolding build_export_def
    by (simp add: get_Inr [OF nn] bindE_Inr)
       (auto simp: bindE_def split: sum.splits jsval.splits)
  then show "comments ex = cs" "totalComments (meta ex) = countComments cs"
    "fetchedAt (meta ex) = now"
    "version (page ex) = coalesce (opt_get (read_prop pg ''version'') ''number'') (JNum 1)"
    by auto
qed

lemma apiGet_Inr:
  "apiGet srv baseUrl p reqs = (Inr pg, reqs') \<Longrightarrow> served srv (request_url baseUrl p) pg"
  by (auto simp: apiGet_def served_def Let_def split: option.splits if_splits)

lemma fetchConfluencePage_Inr:
  assumes "fetchConfluencePage URL srv now config idOrUrl = Some (Inr ex, reqs)"
  shows "\<exists>pid pg cs. resolvePageIdForSite URL idOrUrl (site config) = Inr pid
     \<and> served srv (request_url (createClient_baseUrl config) (page_path pid)) pg
     \<and> build_export (createClient_baseUrl config) now pg cs = Inr ex"
proof (cases "resolvePageIdForSite URL idOrUrl (site config)")
  case (Inl e)
  with assms show ?thesis by (simp add: fetchConfluencePage_def)
next
  case (Inr pid)
  let ?base = "createClient_baseUrl config"
  obtain r1 reqs1 where g: "apiGet srv ?base (page_path pid) [] = (r1, reqs1)"
    by (cases "apiGet srv ?base (page_path pid) []")
  show ?thesis
  proof (cases r1)
    case (Inl e)
    with assms Inr g show ?thesis by (simp add: fetchConfluencePage_def)
  next
    case pg: (Inr pg)
    with assms Inr g obtain r2 reqs2 where
      k: "(case r2 of Inl e \<Rightarrow> Some (Inl e, reqs2)
               | Inr rawComments \<Rightarrow>
                   Option.bind (fetchTree srv ?base (Rest rawComments []) reqs2) (\<lambda>r'.
                     case r' of
                       (Inl e, reqs'') \<Rightarrow> Some (Inl e, reqs'')
                     | (Inr cs, reqs'') \<Rightarrow> Some (build_export ?base now pg cs, reqs'')))
             = Some (Inr ex, reqs)"
      by (auto simp: fetchConfluencePage_def Let_def bind_eq_Some_conv)
    have "\<exists>cs. build_export ?base now pg cs = Inr ex"
    proof (cases r2)
      case (Inl e)
      with k show ?thesis by simp
    next
      case raws: (Inr raws)
      with k obtain r3 reqs3 where
        k3: "(case r3 of Inl e \<Rightarrow> Some (Inl e, reqs3)
                  | Inr cs \<Rightarrow> Some (build_export ?base now pg cs, reqs3)) = Some (Inr ex, reqs)"
        by (auto simp: bind_eq_Some_conv)
      then show ?thesis by (cases r3) auto
    qed
    then obtain cs where "build_export ?base now pg cs = Inr ex" by blast
    with Inr apiGet_Inr [OF g [unfolded pg]] show ?thesis by blast
  qed
qed

lemma fetchConfluencePage_success:
  assumes "resolvePageIdForSite URL idOrUrl (site config) = Inr pid"
    and "served srv (request_url (createClient_baseUrl config) (page_path pid)) pg"
    and "page_chain srv (createClient_baseUrl config) (child_comments_path pid) pgs"
    and "comment_trees srv (createClient_baseUrl config) (concat (map page_items pgs)) cs"
  shows "\<exists>reqs. fetchConfluencePage URL srv now config idOrUrl =
     Some (build_export (createClient_baseUrl config) now pg cs,
       request_url (createClient_baseUrl config) (page_path pid)
         # chain_urls (createClient_baseUrl config) (child_comments_path pid) pgs @ reqs)"
proof -
  from fetchTree_trees [OF assms(4)] obtain new where
    "\<forall>reqs acc. fetchTree srv (createClient_baseUrl config)
        (Rest (concat (map page_items pgs)) acc) reqs = Some (Inr (acc @ cs), reqs @ new)"
    by blast
  then have "fetchConfluencePage URL srv now config idOrUrl =
     Some (build_export (createClient_baseUrl config) now pg cs,
       request_url (createClient_baseUrl config) (page_path pid)
         # chain_urls (createClient_baseUrl config) (child_comments_path pid) pgs @ new)"
    by (simp add: fetchConfluencePage_def assms(1) Let_def apiGet_served [OF assms(2)]
        fetchAllPages_chain [OF assms(3)])
  then show ?thesis by blast
qed

subsection \<open>The sample site\<close>

lemmas chain_eval = served_def request_url_def startsWith_def ok_json_def ok_def listing_def
  well_linked_def next_link_def next_path_def normalizePaginationLink_def nullish_def
  opt_get_simps child_comments_path_def page_path_def demo_base_def

lemma demo_chain_55:
  "page_chain demo_srv demo_base (child_comments_path ''55'') [demo_first_page, listing [raw_short]]"
  by (simp add: demo_srv_def demo_first_page_def chain_eval)

lemma demo_chain_101:
  "page_chain demo_srv demo_base (child_comments_path ''101'') [listing [raw_plain, raw_id ''202'']]"
  by (simp add: demo_srv_def chain_eval)

lemma demo_chain_102:
  "page_chain demo_srv demo_base (child_comments_path ''102'') [listing [raw_id ''203'', raw_id ''204'']]"
  by (simp add: demo_srv_def chain_eval)

lemma demo_chain_leaf:
  "s \<in> {''201'', ''202'', ''203'', ''204''} \<Longrightarrow>
     page_chain demo_srv demo_base (child_comments_path s) [listing []]"
  by (auto simp: demo_srv_def chain_eval)

lemma page_items_listing: "page_items (listing raws) = raws"
  by (simp add: page_items_def listing_def)

lemma to_string_102: "to_string (JNum 102) = Inr ''102''"
  by (simp add: show_int_def digit_char_def)

lemma demo_forest_leaf:
  "s \<in> {''201'', ''202'', ''203'', ''204''} \<Longrightarrow> reply_forest demo_srv demo_base (JStr s) []"
  by (rule replies [OF _ demo_chain_leaf]) (simp_all add: page_items_listing no_comment)

lemma parse_raw_plain:
  "parseComment raw_plain =
     Inr (Comment (JStr ''201'') (JStr []) (JStr ''Bob'') (JStr ''2024-01-02T10:00:00.000Z'')
           (JStr []) (JStr ''<p>ok</p>'') None [])"
  by (simp add: parseComment_record inline_of_def raw_plain_def nullish_def coalesce_def
      opt_get_simps)

lemma parse_raw_inline:
  "parseComment raw_inline =
     Inr (Comment (JStr ''101'') (JStr ''Re: Home'') (JStr ''Ada'') (JStr ''2024-01-01T09:00:00.000Z'')
        (JStr ''2024-01-01T09:00:00.000Z'') (JStr ''<p>typo</p>'')
        (Some \<lparr>textSelection = JStr ''teh'', markerRef = JStr [], resolved = True\<rparr>) [])"
  by (simp add: parseComment_record inline_of_def raw_inline_def nullish_def coalesce_def
      opt_get_simps)

lemma parse_raw_short: "parseComment raw_short = Inr (bare_comment (JNum 102) [])"
  by (simp add: parseComment_record inline_of_def raw_short_def nullish_def coalesce_def
      opt_get_simps bare_comment_def)

lemma parse_raw_id: "parseComment (raw_id s) = Inr (bare_comment (JStr s) [])"
  by (simp add: parseComment_record inline_of_def raw_id_def nullish_def coalesce_def
      opt_get_simps bare_comment_def)

lemma demo_leaf_tree:
  assumes "s \<in> {''201'', ''202'', ''203'', ''204''}" "comment_trees demo_srv demo_base raws cs"
  shows "comment_trees demo_srv demo_base (raw_id s # raws) (bare_comment (JStr s) [] # cs)"
proof -
  have "reply_forest demo_srv demo_base (read_prop (raw_id s) ''id'') []"
    using demo_forest_leaf [OF assms(1)] by (simp add: raw_id_def)
  from comment [OF parse_raw_id this assms(2)] show ?thesis
    by (simp add: with_children_def bare_comment_def)
qed

lemma demo_forest_101: "reply_forest demo_srv demo_base (JStr ''101'') demo_replies"
proof -
  have "reply_forest demo_srv demo_base (read_prop raw_plain ''id'') []"
    using demo_forest_leaf [of "''201''"] by (simp add: raw_plain_def)
  from comment [OF parse_raw_plain this demo_leaf_tree [OF _ no_comment, of "''202''"]]
  have "comment_trees demo_srv demo_base [raw_plain, raw_id ''202''] demo_replies"
    by (simp add: with_children_def demo_replies_def)
  then show ?thesis
    by (intro replies [OF _ demo_chain_101]) (simp_all add: page_items_listing)
qed

lemma demo_forest_102:
  "reply_forest demo_srv demo_base (JNum 102)
     [bare_comment (JStr ''203'') [], bare_comment (JStr ''204'') []]"
proof -
  have "comment_trees demo_srv demo_base [raw_id ''203'', raw_id ''204'']
      [bare_comment (JStr ''203'') [], bare_comment (JStr ''204'') []]"
    by (intro demo_leaf_tree no_comment) simp_all
  then show ?thesis
    by (intro replies [OF to_string_102 demo_chain_102]) (simp add: page_items_listing)
qed

lemma demo_trees: "comment_trees demo_srv demo_base [raw_inline, raw_short] demo_comments"
proof -
  have a: "reply_forest demo_srv demo_base (read_prop raw_short ''id'')
      [bare_comment (JStr ''203'') [], bare_comment (JStr ''204'') []]"
    using demo_forest_102 by (simp add: raw_short_def)
  have b: "reply_forest demo_srv demo_base (read_prop raw_inline ''id'') demo_replies"
    using demo_forest_101 by (simp add: raw_inline_def)
  from comment [OF parse_raw_inline b comment [OF parse_raw_short a no_comment]]
  show ?thesis by (simp add: with_children_def demo_comments_def bare_comment_def)
qed

lemma trim_55: "trim ''55'' = ''55''" "all_digits ''55''"
  by code_simp+

lemma resolve_55: "resolvePageIdForSite URL ''55'' configuredSite = Inr ''55''"
  by (simp add: resolvePageIdForSite_def parsePageInput_cases bindE_def trim_55)

lemma demo_baseUrl: "createClient_baseUrl demo_config = demo_base"
  by (simp add: createClient_baseUrl_def demo_config_def demo_base_def)

lemma demo_page_served: "served demo_srv (request_url demo_base (page_path ''55'')) demo_page"
  by (simp add: demo_srv_def chain_eval)

lemma demo_build:
  "\<exists>p. build_export demo_base demo_now demo_page demo_comments =
     Inr \<lparr>page = p, comments = demo_comments,
          meta = \<lparr>fetchedAt = demo_now, totalComments = countComments demo_comments\<rparr>\<rparr>
     \<and> version p = JNum 3"
  by (simp add: build_export_def demo_page_def get_def nullish_def bindE_def coalesce_def
      opt_get_simps)

lemma demo_export:
  "\<exists>p reqs. fetchConfluencePage URL_examples demo_srv demo_now demo_config ''55'' =
     Some (Inr \<lparr>page = p, comments = demo_comments,
          meta = \<lparr>fetchedAt = demo_now, totalComments = countComments demo_comments\<rparr>\<rparr>, reqs)
     \<and> version p = JNum 3"
proof -
  have t: "comment_trees demo_srv demo_base
     (concat (map page_items [demo_first_page, listing [raw_short]])) demo_comments"
    using demo_trees by (simp add: page_items_def demo_first_page_def listing_def)
  from fetchConfluencePage_success [OF resolve_55, of demo_srv demo_config demo_page _ demo_comments
      URL_examples demo_now, unfolded demo_baseUrl, OF demo_page_served demo_chain_55 t]
    demo_build
  show ?thesis by auto
qed

subsection \<open>Sample listings\<close>

lemma odd_chain: "page_chain odd_srv demo_base (child_comments_path ''7'') odd_pages"
  by (simp add: odd_srv_def odd_urls_def odd_pages_def chain_eval)

lemma odd_chain_urls: "chain_urls demo_base (child_comments_path ''7'') odd_pages = odd_urls"
  by (simp add: odd_urls_def odd_pages_def chain_eval)

lemma odd_items: "concat (map page_items odd_pages) = [raw_id ''301'', raw_id ''302'']"
  by (simp add: odd_pages_def page_items_def)

lemma odd_filter: "filter array_shaped odd_pages = [odd_pages ! 0, odd_pages ! 3]"
  by (simp add: odd_pages_def array_shaped_def)

lemma normalize_cases:
  "(startsWith s ''http://'' \<or> startsWith s ''https://'' \<longrightarrow> normalizePaginationLink s = s)"
  "normalizePaginationLink (''/wiki/'' @ t) = ''/'' @ t"
  "(\<not> startsWith s ''/wiki/'' \<longrightarrow> normalizePaginationLink s = s)"
  by (simp_all add: normalizePaginationLink_def startsWith_def)

lemma chain_urls_nth:
  "page_chain srv baseUrl path pgs \<Longrightarrow> Suc i < length pgs \<Longrightarrow> next_link (pgs ! i) = JStr s \<Longrightarrow>
     chain_urls baseUrl path pgs ! Suc i = request_url baseUrl (normalizePaginationLink s)"
proof (induction pgs arbitrary: path i)
  case Nil
  then show ?case by simp
next
  case (Cons pg pgs)
  from Cons.prems(1) have rest: "page_chain srv baseUrl (next_path pg) pgs" by simp
  show ?case
  proof (cases i)
    case 0
    with Cons.prems obtain q qs where "pgs = q # qs" by (cases pgs) auto
    with 0 Cons.prems(3) show ?thesis by (simp add: next_path_def)
  next
    case (Suc j)
    with Cons.prems Cons.IH [OF rest, of j] show ?thesis by simp
  qed
qed

lemma chain_urls_hd:
  "pgs \<noteq> [] \<Longrightarrow> chain_urls baseUrl path pgs ! 0 = request_url baseUrl path"
  by (cases pgs) simp_all

lemma page_items_filter:
  "concat (map page_items (filter array_shaped pgs)) = concat (map page_items pgs)"
  by (induction pgs) (auto simp: array_shaped_def page_items_def split: jsval.splits)

lemma page_step_non_array:
  assumes "\<not> nullish pg" "well_linked pg" "\<not> array_shaped pg"
  shows "page_step acc pg = Inr (acc, if truthy (next_link pg) then Some (next_path pg) else None)"
proof -
  from assms(3) have "page_items pg = []"
    by (auto simp: array_shaped_def page_items_def split: jsval.splits)
  with page_step_ok [OF assms(1,2), of acc] show ?thesis by simp
qed





subsection \<open>Exports without comments, and the host check\<close>

lemma fetchConfluencePage_no_comments:
  assumes "resolvePageIdForSite URL idOrUrl (site config) = Inr pid"
    and "served srv (request_url (createClient_baseUrl config) (page_path pid)) pg"
    and "page_chain srv (createClient_baseUrl config) (child_comments_path pid) pgs"
    and "concat (map page_items pgs) = []"
  shows "fetchConfluencePage URL srv now config idOrUrl =
     Some (build_export (createClient_baseUrl config) now pg [],
       request_url (createClient_baseUrl config) (page_path pid)
         # chain_urls (createClient_baseUrl config) (child_comments_path pid) pgs)"
  by (simp add: fetchConfluencePage_def assms(1,4) Let_def apiGet_served [OF assms(2)]
      fetchAllPages_chain [OF assms(3)] fetchTree_Rest_Nil)

lemma page_only_export:
  assumes "\<not> nullish pg"
  shows "fetchConfluencePage URL_examples (page_only_srv pg) demo_now demo_config ''55'' =
     Some (build_export demo_base demo_now pg [],
           [demo_base @ page_path ''55'', demo_base @ child_comments_path ''55''])"
proof -
  have s: "served (page_only_srv pg) (request_url demo_base (page_path ''55'')) pg"
    and c: "page_chain (page_only_srv pg) demo_base (child_comments_path ''55'') [listing []]"
    and u: "request_url demo_base (page_path ''55'') = demo_base @ page_path ''55''"
      "request_url demo_base (child_comments_path ''55'') = demo_base @ child_comments_path ''55''"
    by (simp_all add: page_only_srv_def chain_eval)
  from fetchConfluencePage_no_comments [OF resolve_55, of "page_only_srv pg" demo_config pg
      "[listing []]" URL_examples demo_now, unfolded demo_baseUrl, OF s c]
  show ?thesis by (simp add: page_items_listing u)
qed

lemma build_bare:
  "build_export demo_base demo_now page_v0 [] = Inr (export_of_bare (JNum 0))"
  "build_export demo_base demo_now page_bare [] = Inr (export_of_bare (JNum 1))"
  by (simp_all add: build_export_def page_v0_def page_bare_def export_of_bare_def get_def
      nullish_def bindE_def coalesce_def opt_get_simps countComments_sum [of "[]"])

lemma toLowerCase_Nil: "toLowerCase h = [] \<longleftrightarrow> h = []"
  by (cases h) (simp_all add: toLowerCase.simps)

lemma resolve_cases:
  "resolvePageIdForSite URL s configuredSite =
     (if all_digits (trim s) then Inr (trim s)
      else case URL (trim s) of
             None \<Rightarrow> Inl (InvalidInput invalid_identifier_msg)
           | Some u \<Rightarrow>
               (case numeric_id u of
                  None \<Rightarrow> Inl (InvalidInput no_page_id_msg)
                | Some p \<Rightarrow>
                    if host u \<noteq> [] \<and> toLowerCase (host u) \<noteq> toLowerCase configuredSite
                    then Inl (HostMismatch (host_mismatch_msg (toLowerCase (host u)) configuredSite))
                    else Inr p))"
  by (simp add: resolvePageIdForSite_def parsePageInput_cases bindE_def toLowerCase_Nil
      split: option.splits)

lemma host_mismatch_examples:
  "\<not> all_digits (trim ''https://other.atlassian.net/wiki/pages/viewpage.action?pageId=55'')"
  "URL_examples (trim ''https://other.atlassian.net/wiki/pages/viewpage.action?pageId=55'') =
     Some \<lparr>pathname = ''/wiki/pages/viewpage.action'', host = ''other.atlassian.net'',
           searchParams = [(''pageId'', ''55'')]\<rparr>"
  "numeric_id \<lparr>pathname = ''/wiki/pages/viewpage.action'', host = ''other.atlassian.net'',
           searchParams = [(''pageId'', ''55'')]\<rparr> = Some ''55''"
  "toLowerCase ''other.atlassian.net'' = ''other.atlassian.net''"
  "toLowerCase (site demo_config) = ''example.atlassian.net''"
  "site demo_config = ''example.atlassian.net''"
  "\<not> all_digits (trim ''https://example.atlassian.net/wiki/pages/viewpage.action?pageId=22982787097'')"
  "URL_examples (trim ''https://example.atlassian.net/wiki/pages/viewpage.action?pageId=22982787097'') =
     Some \<lparr>pathname = ''/wiki/pages/viewpage.action'', host = ''example.atlassian.net'',
           searchParams = [(''pageId'', ''22982787097'')]\<rparr>"
  "numeric_id \<lparr>pathname = ''/wiki/pages/viewpage.action'', host = ''example.atlassian.net'',
           searchParams = [(''pageId'', ''22982787097'')]\<rparr> = Some ''22982787097''"
  "toLowerCase ''example.atlassian.net'' = ''example.atlassian.net''"
  "toLowerCase (site shouting_config) = ''example.atlassian.net''"
  "all_digits (trim ''22982787097'')" "trim ''22982787097'' = ''22982787097''"
  by code_simp+

subsection \<open>Reply chains of every depth\<close>

lemma deep_srv_lookup:
  "deep_srv (demo_base @ child_comments_path (reply_id k)) =
     Some (ok_json (listing (if k = 0 then [] else [raw_id (reply_id (k - 1))])))"
proof -
  have "demo_base @ child_comments_path (reply_id k) =
      (demo_base @ ''/rest/api/content/c'') @ replicate k CHR ''x'' @
        ''/child/comment?expand=body.storage,version,extensions.inlineProperties,extensions.resolution&limit=100''"
    by (simp add: child_comments_path_def reply_id_def)
  then have "drop (length (demo_base @ ''/rest/api/content/c''))
        (demo_base @ child_comments_path (reply_id k)) =
      replicate k CHR ''x'' @
        ''/child/comment?expand=body.storage,version,extensions.inlineProperties,extensions.resolution&limit=100''"
    by (simp only: append_eq_conv_conj [THEN iffD1, THEN conjunct2] drop_append length_append)
       simp
  moreover have "takeWhile (\<lambda>c. c = CHR ''x'') (replicate k CHR ''x'' @
        ''/child/comment?expand=body.storage,version,extensions.inlineProperties,extensions.resolution&limit=100'')
      = replicate k CHR ''x''"
    by (induction k) simp_all
  ultimately show ?thesis
    by (simp add: deep_srv_def Let_def)
qed

lemma request_url_child:
  "request_url demo_base (child_comments_path cid) = demo_base @ child_comments_path cid"
  by (simp add: request_url_def child_comments_path_def startsWith_def)

lemma deep_chain:
  "page_chain deep_srv demo_base (child_comments_path (reply_id k))
     [listing (if k = 0 then [] else [raw_id (reply_id (k - 1))])]"
proof -
  let ?pg = "listing (if k = 0 then [] else [raw_id (reply_id (k - 1))])"
  have "child_comments_path (reply_id k) \<noteq> []"
    by (simp add: child_comments_path_def)
  moreover have "served deep_srv (request_url demo_base (child_comments_path (reply_id k))) ?pg"
    by (simp add: request_url_child deep_srv_lookup served_def ok_json_def ok_def)
  moreover have "\<not> nullish ?pg" "well_linked ?pg" "next_path ?pg = []"
    by (simp_all add: listing_def nullish_def well_linked_def next_link_def next_path_def
        opt_get_simps)
  ultimately show ?thesis by simp
qed

lemma deep_forest: "reply_forest deep_srv demo_base (JStr (reply_id k)) (chain_forest k)"
proof (induction k)
  case 0
  show ?case
    using replies [OF _ deep_chain [of 0], of "JStr (reply_id 0)" "[]"]
    by (simp add: page_items_listing no_comment)
next
  case (Suc k)
  have "reply_forest deep_srv demo_base (read_prop (raw_id (reply_id k)) ''id'') (chain_forest k)"
    using Suc by (simp add: raw_id_def)
  from comment [OF parse_raw_id this no_comment]
  have "comment_trees deep_srv demo_base [raw_id (reply_id k)] (chain_forest (Suc k))"
    by (simp add: with_children_def bare_comment_def)
  with replies [OF _ deep_chain [of "Suc k"], of "JStr (reply_id (Suc k))" "chain_forest (Suc k)"]
  show ?case by (simp add: page_items_listing)
qed

lemma deep_thread: "finite_thread deep_srv demo_base (JStr (reply_id k))"
proof (induction k)
  case 0
  show ?case
    using thread [OF _ deep_chain [of 0], of "JStr (reply_id 0)"]
    by (simp add: page_items_listing)
next
  case (Suc k)
  with thread [OF _ deep_chain [of "Suc k"], of "JStr (reply_id (Suc k))"]
  show ?case by (simp add: page_items_listing raw_id_def nullish_def)
qed

lemma fetchReplies_any_depth:
  "\<exists>new. fetchReplies deep_srv demo_base (JStr (reply_id k)) [] = Some (Inr (chain_forest k), new)"
  using fetchTree_forest [OF deep_forest [of k]] by (auto simp: fetchReplies_def)

subsection \<open>The rejected request is the last one\<close>



subsection \<open>The claims about the export and the traversal\<close>

text \<open>
  C1: in every export that \<^verbatim>\<open>fetchConfluencePage\<close> returns, \<^verbatim>\<open>meta.totalComments\<close> is
  the number of comment nodes reachable from \<^verbatim>\<open>comments\<close> through \<^verbatim>\<open>children\<close>, which
  is the sum over the top-level comments of one plus the count of the comment's subtree.
  A page with no comments has the count 0, a full forest of depth \<open>d\<close> and fan-out \<open>k\<close>
  the count \<open>k + \<dots> + k\<^sup>d\<close>, and for depth 3 and fan-out 2 that is 14, which is also
  what \<^verbatim>\<open>countComments\<close> computes on such a forest.
\<close>

theorem totalComments_counts_nodes:
  assumes "fetchConfluencePage URL srv now config idOrUrl = Some (Inr ex, reqs)"
  shows "totalComments (meta ex) = length (concat (map nodes (comments ex)))
     \<and> totalComments (meta ex) = sum_list (map subtree_count (comments ex))
     \<and> (comments ex = [] \<longrightarrow> totalComments (meta ex) = 0)
     \<and> (\<forall>d k. is_full d k (comments ex) \<longrightarrow> totalComments (meta ex) = full_count d k)
     \<and> full_count 3 2 = 14
     \<and> countComments (full_forest 3 2) = 14"
proof -
  from fetchConfluencePage_Inr [OF assms] obtain pg cs where
    "build_export (createClient_baseUrl config) now pg cs = Inr ex"
    by blast
  from build_export_Inr(2,3) [OF this]
  have t: "totalComments (meta ex) = countComments (comments ex)" by simp
  have f: "full_count 3 2 = 14" by (simp add: eval_nat_numeral)
  have "countComments (comments ex) = length (concat (map nodes (comments ex)))"
    by (rule countComments_nodes)
  moreover have "countComments (comments ex) = sum_list (map subtree_count (comments ex))"
    by (rule countComments_subtree)
  moreover have "comments ex = [] \<longrightarrow> countComments (comments ex) = 0"
    by (simp add: countComments_sum [of "[]"])
  moreover have "\<forall>d k. is_full d k (comments ex) \<longrightarrow> countComments (comments ex) = full_count d k"
    by (simp add: countComments_full)
  moreover have "countComments (full_forest 3 2) = 14"
    using countComments_full [OF is_full_full_forest, of 3 2] f by simp
  ultimately show ?thesis unfolding t using f by blast
qed


theorem totalComments_counts_nodes_witness:
  "\<exists>ex reqs. fetchConfluencePage URL_examples demo_srv demo_now demo_config ''55'' = Some (Inr ex, reqs)
     \<and> comments ex = demo_comments
     \<and> is_full 2 2 (comments ex)
     \<and> length (concat (map nodes (comments ex))) = 6
     \<and> totalComments (meta ex) = 6"
proof -
  from demo_export obtain p reqs where
    e: "fetchConfluencePage URL_examples demo_srv demo_now demo_config ''55'' =
     Some (Inr \<lparr>page = p, comments = demo_comments,
          meta = \<lparr>fetchedAt = demo_now, totalComments = countComments demo_comments\<rparr>\<rparr>, reqs)"
    by blast
  have n: "length (concat (map nodes demo_comments)) = 6"
    by (simp add: demo_comments_def demo_replies_def bare_comment_def)
  have f: "is_full 2 2 demo_comments"
    by (simp add: demo_comments_def demo_replies_def bare_comment_def eval_nat_numeral)
  from totalComments_counts_nodes [OF e] n f show ?thesis
    using e by (intro exI [of _ "\<lparr>page = p, comments = demo_comments,
          meta = \<lparr>fetchedAt = demo_now, totalComments = countComments demo_comments\<rparr>\<rparr>"]
         exI [of _ reqs]) simp
qed

text \<open>
  C8: when below a comment every chain of replies ends (the reply relation of the service
  is well-founded there), \<^verbatim>\<open>fetchReplies\<close> returns, and what it returns is the complete
  reply forest of the comment. The traversal has no depth bound of its own: for every
  \<open>k\<close> there is a thread that is a chain of \<open>k\<close> nested replies, and it is returned
  whole.
\<close>

theorem fetchReplies_terminates:
  assumes "finite_thread srv baseUrl commentId"
  shows "(\<exists>cs new. (\<forall>reqs. fetchReplies srv baseUrl commentId reqs = Some (Inr cs, reqs @ new))
            \<and> reply_forest srv baseUrl commentId cs)
     \<and> (\<forall>k. finite_thread deep_srv demo_base (JStr (reply_id k))
            \<and> (\<exists>new. fetchReplies deep_srv demo_base (JStr (reply_id k)) []
                         = Some (Inr (chain_forest k), new)))"
proof -
  from finite_thread_forest [OF assms] obtain cs where cs: "reply_forest srv baseUrl commentId cs"
    by blast
  from fetchTree_forest [OF cs] have
    "\<exists>cs new. (\<forall>reqs. fetchReplies srv baseUrl commentId reqs = Some (Inr cs, reqs @ new))
            \<and> reply_forest srv baseUrl commentId cs"
    using cs by (auto simp: fetchReplies_def)
  then show ?thesis
    using deep_thread fetchReplies_any_depth by blast
qed

theorem fetchReplies_terminates_witness:
  "finite_thread demo_srv demo_base (JStr ''101'')
   \<and> (\<exists>new. fetchReplies demo_srv demo_base (JStr ''101'') [] = Some (Inr demo_replies, new))
   \<and> reply_forest demo_srv demo_base (JStr ''101'') demo_replies
   \<and> finite_thread deep_srv demo_base (JStr (reply_id 4))
   \<and> (\<exists>new. fetchReplies deep_srv demo_base (JStr (reply_id 4)) []
                = Some (Inr (chain_forest 4), new))"
proof -
  have leaf: "finite_thread demo_srv demo_base (JStr s)"
    if "s \<in> {''201'', ''202'', ''203'', ''204''}" for s
    by (rule thread [OF _ demo_chain_leaf [OF that]]) (simp_all add: page_items_listing)
  have h: "finite_thread demo_srv demo_base (JStr ''101'')"
    by (rule thread [OF _ demo_chain_101])
       (simp_all add: page_items_listing raw_plain_def raw_id_def nullish_def leaf)
  note t = fetchReplies_terminates [OF h]
  from t have deep: "finite_thread deep_srv demo_base (JStr (reply_id 4))
      \<and> (\<exists>new. fetchReplies deep_srv demo_base (JStr (reply_id 4)) []
                   = Some (Inr (chain_forest 4), new))"
    by blast
  from t obtain cs new where
    r: "\<forall>reqs. fetchReplies demo_srv demo_base (JStr ''101'') reqs = Some (Inr cs, reqs @ new)"
    by blast
  from fetchTree_forest [OF demo_forest_101] obtain new' where
    "\<forall>reqs. fetchReplies demo_srv demo_base (JStr ''101'') reqs = Some (Inr demo_replies, reqs @ new')"
    by (auto simp: fetchReplies_def)
  with r have "cs = demo_replies" by (metis Inr_inject option.inject prod.inject)
  with r have "fetchReplies demo_srv demo_base (JStr ''101'') [] = Some (Inr demo_replies, [] @ new)"
    by blast
  with h demo_forest_101 deep show ?thesis by auto
qed

subsection \<open>The claims about the paginated fetcher\<close>

text \<open>
  C4: when the pages \<open>pgs\<close> are the responses of a listing (each page after the first
  being the answer to the link of the page before it, the last one carrying no link),
  \<^verbatim>\<open>fetchAllPages\<close> returns the concatenation of the \<^verbatim>\<open>results\<close> items of the pages in
  response order. It issues one request per page, in order: the first for the start path,
  each later one for the normalised link of the page before; a page carries a link exactly
  when it is not the last. A link that is an absolute URL is used as it is, a link that
  begins with the path prefix \<^verbatim>\<open>/wiki/\<close> loses \<^verbatim>\<open>/wiki\<close>, any other link is used as it
  is.
\<close>

theorem fetchAllPages_concatenates:
  assumes "page_chain srv baseUrl path pgs"
  shows "fetchAllPages srv baseUrl path reqs =
       Some (Inr (concat (map page_items pgs)), reqs @ chain_urls baseUrl path pgs)
     \<and> length (chain_urls baseUrl path pgs) = length pgs
     \<and> (pgs \<noteq> [] \<longrightarrow> chain_urls baseUrl path pgs ! 0 = request_url baseUrl path)
     \<and> (\<forall>i s. Suc i < length pgs \<and> next_link (pgs ! i) = JStr s \<longrightarrow>
           chain_urls baseUrl path pgs ! Suc i = request_url baseUrl (normalizePaginationLink s))
     \<and> (\<forall>i. i < length pgs \<longrightarrow> (truthy (next_link (pgs ! i)) \<longleftrightarrow> Suc i < length pgs))
     \<and> (\<forall>s. startsWith s ''http://'' \<or> startsWith s ''https://'' \<longrightarrow> normalizePaginationLink s = s)
     \<and> (\<forall>t. normalizePaginationLink (''/wiki/'' @ t) = ''/'' @ t)
     \<and> (\<forall>s. \<not> startsWith s ''/wiki/'' \<longrightarrow> normalizePaginationLink s = s)"
  using fetchAllPages_chain [OF assms] length_chain_urls chain_urls_hd
    chain_urls_nth [OF assms] chain_links [OF assms] normalize_cases
  by (intro conjI allI impI) auto

theorem fetchAllPages_concatenates_witness:
  "page_chain odd_srv demo_base (child_comments_path ''7'') odd_pages
   \<and> fetchAllPages odd_srv demo_base (child_comments_path ''7'') [] =
       Some (Inr [raw_id ''301'', raw_id ''302''], odd_urls)
   \<and> truthy (next_link (odd_pages ! 2)) \<and> \<not> truthy (next_link (odd_pages ! 3))
   \<and> odd_urls ! 1 = request_url demo_base
        (normalizePaginationLink ''/wiki/rest/api/content/7/child/comment?start=1'')"
proof -
  have n: "next_link (odd_pages ! 0) = JStr ''/wiki/rest/api/content/7/child/comment?start=1''"
    "length odd_pages = 4"
    by (simp_all add: odd_pages_def next_link_def opt_get_simps)
  from fetchAllPages_concatenates [OF odd_chain, of "[]"] odd_chain n
  show ?thesis
    unfolding odd_chain_urls odd_items
    by (auto simp: eval_nat_numeral)
qed

text \<open>
  C10: a response page whose \<^verbatim>\<open>results\<close> is absent or no array does not make
  \<^verbatim>\<open>fetchAllPages\<close> fail. The page adds no item (the loop step returns the accumulated
  items unchanged), its link is followed like any other (there is one request per page of
  the chain), and the result is the concatenation of the array-shaped \<^verbatim>\<open>results\<close> only.
\<close>

theorem fetchAllPages_skips_non_arrays:
  assumes "page_chain srv baseUrl path pgs"
  shows "fetchAllPages srv baseUrl path reqs =
       Some (Inr (concat (map page_items (filter array_shaped pgs))),
             reqs @ chain_urls baseUrl path pgs)
     \<and> length (chain_urls baseUrl path pgs) = length pgs
     \<and> (\<forall>pg acc. pg \<in> set pgs \<and> \<not> array_shaped pg \<longrightarrow>
           page_items pg = []
           \<and> page_step acc pg =
               Inr (acc, if truthy (next_link pg) then Some (next_path pg) else None))"
proof -
  have "\<not> nullish pg \<and> well_linked pg" if "pg \<in> set pgs" for pg
    using assms that by (induction pgs arbitrary: path) auto
  moreover have "page_items pg = []" if "\<not> array_shaped pg" for pg
    using that by (auto simp: array_shaped_def page_items_def split: jsval.splits)
  ultimately show ?thesis
    using fetchAllPages_chain [OF assms, of reqs] length_chain_urls [of baseUrl path pgs]
    by (auto simp: page_items_filter page_step_non_array)
qed

theorem fetchAllPages_skips_non_arrays_witness:
  "page_chain odd_srv demo_base (child_comments_path ''7'') odd_pages
   \<and> odd_pages ! 1 \<in> set odd_pages \<and> \<not> array_shaped (odd_pages ! 1)
   \<and> odd_pages ! 2 \<in> set odd_pages \<and> \<not> array_shaped (odd_pages ! 2)
   \<and> filter array_shaped odd_pages = [odd_pages ! 0, odd_pages ! 3]
   \<and> fetchAllPages odd_srv demo_base (child_comments_path ''7'') [] =
       Some (Inr [raw_id ''301'', raw_id ''302''], odd_urls)
   \<and> page_step [raw_id ''301''] (odd_pages ! 1) =
       Inr ([raw_id ''301''],
            Some ''https://example.atlassian.net/wiki/rest/api/content/7/child/comment?start=2'')"
proof -
  have a: "odd_pages ! 1 \<in> set odd_pages" "\<not> array_shaped (odd_pages ! 1)"
    "odd_pages ! 2 \<in> set odd_pages" "\<not> array_shaped (odd_pages ! 2)"
    "truthy (next_link (odd_pages ! 1))"
    "next_path (odd_pages ! 1) =
       ''https://example.atlassian.net/wiki/rest/api/content/7/child/comment?start=2''"
    by (simp_all add: odd_pages_def array_shaped_def next_link_def next_path_def opt_get_simps
        normalizePaginationLink_def startsWith_def)
  have i: "concat (map page_items (filter array_shaped odd_pages)) = [raw_id ''301'', raw_id ''302'']"
    by (simp add: page_items_filter odd_items)
  from fetchAllPages_skips_non_arrays [OF odd_chain, of "[]"] a odd_chain odd_filter
  show ?thesis
    unfolding odd_chain_urls i by auto
qed



subsection \<open>The claims about the page version and the host check\<close>

text \<open>
  C9, as the claim states it, fails: the version of the export is whatever the upstream
  page record holds. A site whose page record has the version number 0 gets an export with
  version 0.
\<close>

theorem page_version_counterexample:
  "fetchConfluencePage URL_examples (page_only_srv page_v0) demo_now demo_config ''55'' =
     Some (Inr (export_of_bare (JNum 0)),
           [demo_base @ page_path ''55'', demo_base @ child_comments_path ''55''])
   \<and> version (page (export_of_bare (JNum 0))) = JNum 0
   \<and> \<not> (1::int) \<le> 0"
proof -
  have "\<not> nullish page_v0" by (simp add: page_v0_def nullish_def)
  from page_only_export [OF this] show ?thesis
    by (simp add: build_bare) (simp add: export_of_bare_def)
qed

text \<open>
  C9, amended: in every export, \<^verbatim>\<open>page.version\<close> is the \<^verbatim>\<open>version.number\<close> of the
  upstream page record when that is present and not \<^verbatim>\<open>null\<close>, and the default 1
  otherwise. So it is an integer at least 1 whenever the upstream record carries no
  version number or one that is an integer at least 1.
\<close>

theorem page_version_from_upstream:
  assumes "fetchConfluencePage URL srv now config idOrUrl = Some (Inr ex, reqs)"
  shows "\<exists>pid pg. resolvePageIdForSite URL idOrUrl (site config) = Inr pid
     \<and> served srv (request_url (createClient_baseUrl config) (page_path pid)) pg
     \<and> version (page ex) = or_else (field_at pg [''version'', ''number'']) (JNum 1)
     \<and> (field_at pg [''version'', ''number''] = None \<longrightarrow> version (page ex) = JNum 1)
     \<and> (\<forall>n. field_at pg [''version'', ''number''] = Some (JNum n) \<and> 1 \<le> n
            \<longrightarrow> version (page ex) = JNum n \<and> 1 \<le> n)"
proof -
  from fetchConfluencePage_Inr [OF assms] obtain pid pg cs where
    r: "resolvePageIdForSite URL idOrUrl (site config) = Inr pid"
    and s: "served srv (request_url (createClient_baseUrl config) (page_path pid)) pg"
    and b: "build_export (createClient_baseUrl config) now pg cs = Inr ex"
    by blast
  from build_export_Inr(1,5) [OF b]
  have "version (page ex) = or_else (field_at pg [''version'', ''number'']) (JNum 1)"
    by (simp add: coalesce_or_else path2)
  then show ?thesis
    using r s by (intro exI [of _ pid] exI [of _ pg]) (auto simp: or_else_def)
qed

theorem page_version_from_upstream_witness:
  "(\<exists>ex reqs. fetchConfluencePage URL_examples demo_srv demo_now demo_config ''55''
        = Some (Inr ex, reqs) \<and> version (page ex) = JNum 3)
   \<and> served demo_srv (request_url (createClient_baseUrl demo_config) (page_path ''55'')) demo_page
   \<and> field_at demo_page [''version'', ''number''] = Some (JNum 3)
   \<and> fetchConfluencePage URL_examples (page_only_srv page_bare) demo_now demo_config ''55'' =
       Some (Inr (export_of_bare (JNum 1)),
             [demo_base @ page_path ''55'', demo_base @ child_comments_path ''55''])
   \<and> served (page_only_srv page_bare)
        (request_url (createClient_baseUrl demo_config) (page_path ''55'')) page_bare
   \<and> field_at page_bare [''version'', ''number''] = None
   \<and> version (page (export_of_bare (JNum 1))) = JNum 1"
proof -
  from demo_export obtain p reqs where
    e: "fetchConfluencePage URL_examples demo_srv demo_now demo_config ''55'' =
     Some (Inr \<lparr>page = p, comments = demo_comments,
          meta = \<lparr>fetchedAt = demo_now, totalComments = countComments demo_comments\<rparr>\<rparr>, reqs)"
    by blast
  have s1: "served demo_srv (request_url (createClient_baseUrl demo_config) (page_path ''55'')) demo_page"
    using demo_page_served by (simp add: demo_baseUrl)
  have f1: "field_at demo_page [''version'', ''number''] = Some (JNum 3)"
    by (simp add: demo_page_def present_def nullish_def)
  have e2: "fetchConfluencePage URL_examples (page_only_srv page_bare) demo_now demo_config ''55'' =
       Some (Inr (export_of_bare (JNum 1)),
             [demo_base @ page_path ''55'', demo_base @ child_comments_path ''55''])"
  proof -
    have "\<not> nullish page_bare" by (simp add: page_bare_def nullish_def)
    from page_only_export [OF this] show ?thesis by (simp add: build_bare)
  qed
  have s2: "served (page_only_srv page_bare)
        (request_url (createClient_baseUrl demo_config) (page_path ''55'')) page_bare"
    by (simp add: page_only_srv_def demo_baseUrl chain_eval)
  have f2: "field_at page_bare [''version'', ''number''] = None"
    by (simp add: page_bare_def)
  have served_fun: "served srv u a \<Longrightarrow> served srv u b \<Longrightarrow> a = b" for srv u a b
    by (auto simp: served_def split: option.splits)
  from page_version_from_upstream [OF e] obtain pg where
    a: "served demo_srv (request_url (createClient_baseUrl demo_config) (page_path ''55'')) pg"
    and b: "version p = or_else (field_at pg [''version'', ''number'']) (JNum 1)"
    by (auto simp: resolve_55)
  from served_fun [OF s1 a] have "pg = demo_page" by simp
  with b f1 have v1: "version p = JNum 3" by (simp add: or_else_def)
  from page_version_from_upstream [OF e2] obtain pg' where
    a': "served (page_only_srv page_bare)
        (request_url (createClient_baseUrl demo_config) (page_path ''55'')) pg'"
    and b': "version (page (export_of_bare (JNum 1))) =
        or_else (field_at pg' [''version'', ''number'']) (JNum 1)"
    by (auto simp: resolve_55)
  from served_fun [OF s2 a'] have "pg' = page_bare" by simp
  with b' f2 have v2: "version (page (export_of_bare (JNum 1))) = JNum 1"
    by (simp add: or_else_def)
  from e v1 have "\<exists>ex reqs. fetchConfluencePage URL_examples demo_srv demo_now demo_config ''55''
        = Some (Inr ex, reqs) \<and> version (page ex) = JNum 3"
    by (intro exI [of _ "\<lparr>page = p, comments = demo_comments,
          meta = \<lparr>fetchedAt = demo_now, totalComments = countComments demo_comments\<rparr>\<rparr>"]
         exI [of _ reqs]) simp
  with s1 f1 e2 s2 f2 v2 show ?thesis by blast
qed

text \<open>
  C2, as the claim states it, fails: a URL whose host differs from the configured site is
  rejected as \<open>InvalidInput\<close>, not \<open>HostMismatch\<close>, when no page ID can be extracted
  from it, and is accepted when its host is empty.
\<close>

theorem host_mismatch_counterexample:
  "URL_examples ''https://other.atlassian.net/wiki/spaces/ENG/overview'' =
     Some \<lparr>pathname = ''/wiki/spaces/ENG/overview'', host = ''other.atlassian.net'',
           searchParams = []\<rparr>
   \<and> toLowerCase ''other.atlassian.net'' \<noteq> toLowerCase ''example.atlassian.net''
   \<and> resolvePageIdForSite URL_examples ''https://other.atlassian.net/wiki/spaces/ENG/overview''
        ''example.atlassian.net'' = Inl (InvalidInput no_page_id_msg)
   \<and> URL_examples ''file:///pages/123'' = Some \<lparr>pathname = ''/pages/123'', host = [], searchParams = []\<rparr>
   \<and> toLowerCase [] \<noteq> toLowerCase ''example.atlassian.net''
   \<and> resolvePageIdForSite URL_examples ''file:///pages/123'' ''example.atlassian.net'' = Inr ''123''"
  by code_simp

text \<open>
  C2, amended: \<^verbatim>\<open>resolvePageIdForSite\<close> fails with \<open>HostMismatch\<close> exactly when the
  input is a URL from which a numeric page ID can be extracted and whose host is not empty
  and differs, both in lower case, from the configured site; the message names both
  hosts. A URL whose host matches in lower case resolves to its page ID, a bare numeric
  ID is returned without any host check, and whenever the resolution fails
  \<^verbatim>\<open>fetchConfluencePage\<close> returns that failure without having issued a request.
\<close>

theorem host_mismatch_iff:
  "(resolvePageIdForSite URL s (site config) = Inl (HostMismatch m) \<longleftrightarrow>
      \<not> all_digits (trim s)
      \<and> (\<exists>u p. URL (trim s) = Some u \<and> numeric_id u = Some p \<and> host u \<noteq> []
             \<and> toLowerCase (host u) \<noteq> toLowerCase (site config)
             \<and> m = ''URL host mismatch: URL uses '' @ toLowerCase (host u)
                    @ '' but config site is '' @ site config @ ''.''))
   \<and> (\<forall>u p. \<not> all_digits (trim s) \<and> URL (trim s) = Some u \<and> numeric_id u = Some p
          \<and> toLowerCase (host u) = toLowerCase (site config)
          \<longrightarrow> resolvePageIdForSite URL s (site config) = Inr p)
   \<and> (all_digits (trim s) \<longrightarrow> resolvePageIdForSite URL s (site config) = Inr (trim s))
   \<and> (\<forall>e. resolvePageIdForSite URL s (site config) = Inl e
          \<longrightarrow> fetchConfluencePage URL srv now config s = Some (Inl e, []))"
proof (intro conjI allI impI)
  show "resolvePageIdForSite URL s (site config) = Inl (HostMismatch m) \<longleftrightarrow>
      \<not> all_digits (trim s)
      \<and> (\<exists>u p. URL (trim s) = Some u \<and> numeric_id u = Some p \<and> host u \<noteq> []
             \<and> toLowerCase (host u) \<noteq> toLowerCase (site config)
             \<and> m = ''URL host mismatch: URL uses '' @ toLowerCase (host u)
                    @ '' but config site is '' @ site config @ ''.'')"
    by (auto simp: resolve_cases host_mismatch_msg_def split: option.splits if_splits)
next
  fix u p
  assume "\<not> all_digits (trim s) \<and> URL (trim s) = Some u \<and> numeric_id u = Some p
          \<and> toLowerCase (host u) = toLowerCase (site config)"
  then show "resolvePageIdForSite URL s (site config) = Inr p"
    by (simp add: resolve_cases)
next
  assume "all_digits (trim s)"
  then show "resolvePageIdForSite URL s (site config) = Inr (trim s)"
    by (simp add: resolve_cases)
next
  fix e
  assume "resolvePageIdForSite URL s (site config) = Inl e"
  then show "fetchConfluencePage URL srv now config s = Some (Inl e, [])"
    by (simp add: fetchConfluencePage_def)
qed

theorem host_mismatch_iff_witness:
  "resolvePageIdForSite URL_examples
       ''https://other.atlassian.net/wiki/pages/viewpage.action?pageId=55'' (site demo_config) =
     Inl (HostMismatch
       ''URL host mismatch: URL uses other.atlassian.net but config site is example.atlassian.net.'')
   \<and> fetchConfluencePage URL_examples demo_srv demo_now demo_config
       ''https://other.atlassian.net/wiki/pages/viewpage.action?pageId=55'' =
     Some (Inl (HostMismatch
       ''URL host mismatch: URL uses other.atlassian.net but config site is example.atlassian.net.''), [])
   \<and> toLowerCase ''example.atlassian.net'' = toLowerCase (site shouting_config)
   \<and> resolvePageIdForSite URL_examples
       ''https://example.atlassian.net/wiki/pages/viewpage.action?pageId=22982787097''
       (site shouting_config) = Inr ''22982787097''
   \<and> all_digits (trim ''22982787097'')
   \<and> resolvePageIdForSite URL_examples ''22982787097'' (site demo_config) = Inr ''22982787097''"
proof -
  note t = host_mismatch_iff [of URL_examples
      "''https://other.atlassian.net/wiki/pages/viewpage.action?pageId=55''" demo_config
      "''URL host mismatch: URL uses other.atlassian.net but config site is example.atlassian.net.''"
      demo_srv demo_now]
  from t have a: "resolvePageIdForSite URL_examples
       ''https://other.atlassian.net/wiki/pages/viewpage.action?pageId=55'' (site demo_config) =
     Inl (HostMismatch
       ''URL host mismatch: URL uses other.atlassian.net but config site is example.atlassian.net.'')"
    by (simp add: host_mismatch_examples(1-6,10))
  with t have b: "fetchConfluencePage URL_examples demo_srv demo_now demo_config
       ''https://other.atlassian.net/wiki/pages/viewpage.action?pageId=55'' =
     Some (Inl (HostMismatch
       ''URL host mismatch: URL uses other.atlassian.net but config site is example.atlassian.net.''), [])"
    by blast
  from host_mismatch_iff [of URL_examples
      "''https://example.atlassian.net/wiki/pages/viewpage.action?pageId=22982787097''"
      shouting_config]
  have c: "resolvePageIdForSite URL_examples
       ''https://example.atlassian.net/wiki/pages/viewpage.action?pageId=22982787097''
       (site shouting_config) = Inr ''22982787097''"
    using host_mismatch_examples(7-11) by simp
  from host_mismatch_iff [of URL_examples "''22982787097''" demo_config]
  have d: "resolvePageIdForSite URL_examples ''22982787097'' (site demo_config) = Inr ''22982787097''"
    using host_mismatch_examples(6,12,13) by simp
  from a b c d host_mismatch_examples(10-12) show ?thesis by simp
qed

end
